theory Spec2Isabelle
  imports Main
begin

section \<open>JSON documents as the JavaScript runtime sees them\<close>

text \<open>
  A parsed document (the result of \<^verbatim>\<open>JSON.parse\<close>) is a tree of the six JSON kinds.
  The field list of an object is kept in the order in which \<^verbatim>\<open>Object.keys\<close>
  enumerates it. Numbers are kept as integers: the code under study never computes with
  them, it only tests them for truthiness.
\<close>

datatype json =
    JNull
  | JBool bool
  | JNum int
  | JStr string
  | JArr "json list"
  | JObj "(string \<times> json) list"

text \<open>
  Every \<^verbatim>\<open>throw\<close> of the source and every exception of the runtime is a value:
  \<^item> \<open>TypeError\<close>: the runtime's error for \<^verbatim>\<open>Object.keys(null)\<close>, for a property
    read on \<^verbatim>\<open>undefined\<close> or \<^verbatim>\<open>null\<close>, and for a call of a method that is
    not there;
  \<^item> \<open>InvalidSchemaUri\<close>: \<^verbatim>\<open>new Error(`Invalid schema Uri ${schemaUri}`)\<close>;
  \<^item> \<open>ExpectedPropertiesNotFound\<close>:
    \<^verbatim>\<open>new Error(`Unable to find expected properties for ${schemaRef}`)\<close>;
  \<^item> \<open>ReadmeNotFound\<close>: the error that single-surface generation throws in place of the
    one it caught from the entry-point lookup;
  \<^item> \<open>External\<close>: an error thrown by a collaborator that is not part of the code under
    study (file access, JSON parsing, the generation routine, ...), with its message.
\<close>

datatype error =
    TypeError
  | InvalidSchemaUri string
  | ExpectedPropertiesNotFound string
  | ReadmeNotFound string string
  | External string

subsection \<open>Own enumerable properties\<close>

text \<open>
  \<^verbatim>\<open>Object.keys\<close> of an array (and of a string) lists the indices as decimal strings;
  \<open>indexKey\<close> is that decimal representation.
\<close>

fun digitChar :: "nat \<Rightarrow> char" where
  "digitChar n = char_of (48 + n)"

fun indexKey :: "nat \<Rightarrow> string" where
  "indexKey n = (if n < 10 then [digitChar n] else indexKey (n div 10) @ [digitChar (n mod 10)])"

declare indexKey.simps [simp del]

definition indexKeys :: "nat \<Rightarrow> string list" where
  "indexKeys n = map indexKey [0..<n]"

text \<open>
  \<open>entries input\<close> pairs each key of \<^verbatim>\<open>Object.keys(input)\<close> with \<^verbatim>\<open>input[key]\<close>:
  \<^item> \<^verbatim>\<open>Object.keys(null)\<close> throws a TypeError;
  \<^item> a boolean and a number have no own enumerable property;
  \<^item> a string has one property per character, keyed by its index, holding the
    one-character string;
  \<^item> an array has one property per element, keyed by its index;
  \<^item> an object has its fields.
\<close>

fun entries :: "json \<Rightarrow> error + (string \<times> json) list" where
  "entries JNull = Inl TypeError"
| "entries (JBool b) = Inr []"
| "entries (JNum n) = Inr []"
| "entries (JStr s) = Inr (zip (indexKeys (length s)) (map (\<lambda>c. JStr [c]) s))"
| "entries (JArr xs) = Inr (zip (indexKeys (length xs)) xs)"
| "entries (JObj fs) = Inr fs"

section \<open>Reference Resolver: \<^verbatim>\<open>findAllReferences\<close>\<close>

subsection \<open>A measure for the traversal\<close>

text \<open>
  The traversal recurses into the elements of arrays and into objects, and it enumerates
  the characters of a string it is called on. The weight below bounds that work.
\<close>

fun weight :: "json \<Rightarrow> nat" where
  "weight JNull = 0"
| "weight (JBool b) = 0"
| "weight (JNum n) = 0"
| "weight (JStr s) = 2 * length s"
| "weight (JArr xs) = Suc (sum_list (map (\<lambda>v. 2 + weight v) xs))"
| "weight (JObj fs) = Suc (sum_list (map (\<lambda>(k, v). 2 + weight v) fs))"

definition keyWeight :: "json \<Rightarrow> nat" where
  "keyWeight v = (case v of JStr s \<Rightarrow> 0 | _ \<Rightarrow> weight v)"

definition entriesWeight :: "(string \<times> json) list \<Rightarrow> nat" where
  "entriesWeight kvs = sum_list (map (\<lambda>(k, v). 2 + keyWeight v) kvs)"

definition valuesWeight :: "json list \<Rightarrow> nat" where
  "valuesWeight vs = sum_list (map (\<lambda>v. 2 + weight v) vs)"

lemma keyWeight_le: "keyWeight v \<le> weight v"
  by (cases v) (simp_all add: keyWeight_def)

lemma entriesWeight_zip_le:
  "entriesWeight (zip ks vs) \<le> valuesWeight vs"
proof (induction vs arbitrary: ks)
  case Nil
  then show ?case by (simp add: entriesWeight_def valuesWeight_def)
next
  case (Cons v vs)
  show ?case
  proof (cases ks)
    case Nil
    then show ?thesis by (simp add: entriesWeight_def valuesWeight_def)
  next
    case (Cons k ks')
    have "entriesWeight (zip ks' vs) \<le> valuesWeight vs" by (rule Cons.IH)
    with Cons keyWeight_le [of v] show ?thesis
      by (simp add: entriesWeight_def valuesWeight_def)
  qed
qed

lemma entriesWeight_fields_le:
  "entriesWeight fs \<le> sum_list (map (\<lambda>(k, v). 2 + weight v) fs)"
proof (induction fs)
  case Nil
  then show ?case by (simp add: entriesWeight_def)
next
  case (Cons f fs)
  obtain k v where f: "f = (k, v)" by (cases f)
  from Cons keyWeight_le [of v] show ?case
    by (simp add: entriesWeight_def f)
qed

lemma entriesWeight_chars:
  "entriesWeight (zip ks (map (\<lambda>c. JStr [c]) s)) \<le> 2 * length s"
proof (induction s arbitrary: ks)
  case Nil
  then show ?case by (simp add: entriesWeight_def)
next
  case (Cons c s)
  show ?case
  proof (cases ks)
    case Nil
    then show ?thesis by (simp add: entriesWeight_def)
  next
    case (Cons k ks')
    have "entriesWeight (zip ks' (map (\<lambda>c. JStr [c]) s)) \<le> 2 * length s"
      by (rule Cons.IH)
    with Cons show ?thesis
      by (simp add: entriesWeight_def keyWeight_def)
  qed
qed

lemma entries_weight:
  "entries input = Inr kvs \<Longrightarrow> entriesWeight kvs < Suc (weight input)"
proof (cases input)
  case (JStr s)
  assume "entries input = Inr kvs"
  with JStr entriesWeight_chars [of "indexKeys (length s)" s] show ?thesis
    by auto
next
  case (JArr xs)
  assume "entries input = Inr kvs"
  with JArr entriesWeight_zip_le [of "indexKeys (length xs)" xs] show ?thesis
    by (auto simp: valuesWeight_def)
next
  case (JObj fs)
  assume "entries input = Inr kvs"
  with JObj entriesWeight_fields_le [of fs] show ?thesis
    by auto
qed (auto simp: entriesWeight_def)

subsection \<open>The traversal\<close>

text \<open>
  \<^verbatim>\<open>
  function findAllReferences(input: any) {
      let refs: any[] = [];
      for (const key of Object.keys(input)) {
          if (Array.isArray(input[key])) {
              for (const value of input[key]) {
                  const foundRefs = findAllReferences(value);
                  refs = refs.concat(foundRefs);
              }
          } else if (typeof input[key] === 'object') {
              const foundRefs = findAllReferences(input[key]);
              refs = refs.concat(foundRefs);
          } else if (key === '$ref' && typeof input[key] === 'string') {
              refs.push(input[key]);
          }
      }
      return refs;
  }
  \<close>
  \<open>scanKeys\<close> is the outer loop over the keys and \<open>scanValues\<close> the inner loop over the
  elements of an array-valued property; both carry the accumulator \<^verbatim>\<open>refs\<close>.
  \<^verbatim>\<open>typeof null\<close> is \<^verbatim>\<open>'object'\<close>, so a \<^verbatim>\<open>null\<close> property takes the second
  branch, as an object does.
\<close>

function findAllReferences :: "json \<Rightarrow> error + string list"
  and scanKeys :: "(string \<times> json) list \<Rightarrow> string list \<Rightarrow> error + string list"
  and scanValues :: "json list \<Rightarrow> string list \<Rightarrow> error + string list"
where
  "findAllReferences input =
     (case entries input of
        Inl e \<Rightarrow> Inl e
      | Inr kvs \<Rightarrow> scanKeys kvs [])"
| "scanKeys [] refs = Inr refs"
| "scanKeys ((key, v) # rest) refs =
     (case v of
        JArr xs \<Rightarrow>
          (case scanValues xs refs of
             Inl e \<Rightarrow> Inl e
           | Inr refs' \<Rightarrow> scanKeys rest refs')
      | JObj fs \<Rightarrow>
          (case findAllReferences v of
             Inl e \<Rightarrow> Inl e
           | Inr foundRefs \<Rightarrow> scanKeys rest (refs @ foundRefs))
      | JNull \<Rightarrow>
          (case findAllReferences v of
             Inl e \<Rightarrow> Inl e
           | Inr foundRefs \<Rightarrow> scanKeys rest (refs @ foundRefs))
      | JStr s \<Rightarrow> scanKeys rest (if key = ''$ref'' then refs @ [s] else refs)
      | _ \<Rightarrow> scanKeys rest refs)"
| "scanValues [] refs = Inr refs"
| "scanValues (v # vs) refs =
     (case findAllReferences v of
        Inl e \<Rightarrow> Inl e
      | Inr foundRefs \<Rightarrow> scanValues vs (refs @ foundRefs))"
  by pat_completeness auto
termination
proof (relation "measure (\<lambda>x. case x of
          Inl input \<Rightarrow> Suc (weight input)
        | Inr (Inl (kvs, refs)) \<Rightarrow> entriesWeight kvs
        | Inr (Inr (vs, refs)) \<Rightarrow> valuesWeight vs)", goal_cases)
  case 1
  show ?case by simp
next
  case (2 input kvs)
  then show ?case by (simp add: entries_weight)
qed (simp_all add: entriesWeight_def valuesWeight_def keyWeight_def)

subsection \<open>What the resolver is to return\<close>

text \<open>
  The reference markers of a value, read off the data: every string that is the value of
  a \<^verbatim>\<open>$ref\<close> field of an object, at any depth, through objects and arrays, in
  field and element order, each occurrence kept.
\<close>

fun markers :: "json \<Rightarrow> string list" where
  "markers (JObj fs) =
     concat (map (\<lambda>(k, v). case v of
                     JStr s \<Rightarrow> (if k = ''$ref'' then [s] else [])
                   | _ \<Rightarrow> markers v) fs)"
| "markers (JArr xs) = concat (map markers xs)"
| "markers v = []"

fun nullFree :: "json \<Rightarrow> bool" where
  "nullFree JNull = False"
| "nullFree (JArr xs) = list_all nullFree xs"
| "nullFree (JObj fs) = list_all (\<lambda>(k, v). nullFree v) fs"
| "nullFree v = True"

definition fieldMarkers :: "(string \<times> json) list \<Rightarrow> string list" where
  "fieldMarkers kvs =
     concat (map (\<lambda>(k, v). case v of
                     JStr s \<Rightarrow> (if k = ''$ref'' then [s] else [])
                   | _ \<Rightarrow> markers v) kvs)"

subsection \<open>Index keys are never the reference key\<close>

lemma indexKey_last: "last (indexKey n) = digitChar (n mod 10)"
proof (induction n rule: indexKey.induct)
  case (1 n)
  show ?case
  proof (cases "n < 10")
    case True
    then show ?thesis by (simp add: indexKey.simps [of n] del: digitChar.simps)
  next
    case False
    then show ?thesis by (simp add: indexKey.simps [of n] del: digitChar.simps)
  qed
qed

lemma digitChar_code: "k < 10 \<Longrightarrow> of_char (digitChar k) = (48 + k :: nat)"
  by simp

lemma indexKey_not_ref: "indexKey n \<noteq> ''$ref''"
proof
  assume "indexKey n = ''$ref''"
  then have "last (indexKey n) = CHR ''f''" by simp
  then have "digitChar (n mod 10) = CHR ''f''" by (simp only: indexKey_last)
  then have "(of_char (digitChar (n mod 10)) :: nat) = of_char (CHR ''f'')" by simp
  moreover have "(of_char (digitChar (n mod 10)) :: nat) = 48 + n mod 10"
    by (rule digitChar_code) simp
  ultimately show False by simp
qed

subsection \<open>The traversal on documents without \<^verbatim>\<open>null\<close>\<close>

lemma fieldMarkers_simps:
  "fieldMarkers [] = []"
  "fieldMarkers ((k, v) # kvs) =
     (case v of JStr s \<Rightarrow> (if k = ''$ref'' then [s] else []) | _ \<Rightarrow> markers v) @ fieldMarkers kvs"
  by (simp_all add: fieldMarkers_def)

lemma fieldMarkers_index_zip:
  "fieldMarkers (zip (map indexKey ns) vs) = concat (map markers (take (length ns) vs))"
proof (induction ns arbitrary: vs)
  case Nil
  show ?case by (simp add: fieldMarkers_simps)
next
  case (Cons n ns)
  show ?case
  proof (cases vs)
    case Nil
    then show ?thesis by (simp add: fieldMarkers_simps)
  next
    case (Cons v vs')
    with Cons.IH [of vs'] show ?thesis
      by (cases v) (simp_all add: fieldMarkers_simps indexKey_not_ref)
  qed
qed

lemma fieldMarkers_entries:
  "entries input = Inr kvs \<Longrightarrow> fieldMarkers kvs = markers input"
proof (cases input)
  case (JStr s)
  assume "entries input = Inr kvs"
  with JStr have "fieldMarkers kvs = concat (map markers (map (\<lambda>c. JStr [c]) s))"
    by (auto simp: indexKeys_def fieldMarkers_index_zip)
  also have "\<dots> = []" by (induction s) simp_all
  finally show ?thesis using JStr by simp
next
  case (JArr xs)
  assume "entries input = Inr kvs"
  with JArr show ?thesis
    by (auto simp: indexKeys_def fieldMarkers_index_zip)
next
  case (JObj fs)
  assume "entries input = Inr kvs"
  with JObj show ?thesis
    by (auto simp: fieldMarkers_def)
qed (auto simp: fieldMarkers_def)

lemma nullFree_entries:
  "nullFree input \<Longrightarrow> \<exists>kvs. entries input = Inr kvs \<and> list_all (\<lambda>(k, v). nullFree v) kvs"
proof (cases input)
  case (JStr s)
  have "list_all (\<lambda>(k, v). nullFree v) (zip ks (map (\<lambda>c. JStr [c]) s))" for ks
    by (induction s arbitrary: ks) (simp, case_tac ks, simp_all)
  with JStr show ?thesis by simp
next
  case (JArr xs)
  assume "nullFree input"
  with JArr have "list_all nullFree xs" by simp
  then have "list_all (\<lambda>(k, v). nullFree v) (zip ks xs)" for ks
    by (induction xs arbitrary: ks) (simp, case_tac ks, simp_all)
  with JArr show ?thesis by simp
qed auto

lemma findAllReferences_nullFree_aux:
  "(nullFree input \<longrightarrow> findAllReferences input = Inr (markers input))"
  "(list_all (\<lambda>(k, v). nullFree v) kvs \<longrightarrow> scanKeys kvs refs = Inr (refs @ fieldMarkers kvs))"
  "(list_all nullFree vs \<longrightarrow> scanValues vs refs = Inr (refs @ concat (map markers vs)))"
proof (induction input and kvs refs and vs refs rule: findAllReferences_scanKeys_scanValues.induct)
  case (1 input)
  show ?case
  proof
    assume nf: "nullFree input"
    then obtain kvs where kvs: "entries input = Inr kvs" "list_all (\<lambda>(k, v). nullFree v) kvs"
      using nullFree_entries by blast
    with 1 have "scanKeys kvs [] = Inr ([] @ fieldMarkers kvs)" by blast
    with kvs show "findAllReferences input = Inr (markers input)"
      by (simp add: fieldMarkers_entries)
  qed
next
  case (2 refs)
  show ?case by (simp add: fieldMarkers_simps)
next
  case (3 key v rest refs)
  show ?case
  proof
    assume nf: "list_all (\<lambda>(k, v). nullFree v) ((key, v) # rest)"
    then have nfv: "nullFree v" and nfr: "list_all (\<lambda>(k, v). nullFree v) rest" by simp_all
    show "scanKeys ((key, v) # rest) refs = Inr (refs @ fieldMarkers ((key, v) # rest))"
    proof (cases v)
      case JNull
      with nfv show ?thesis by simp
    next
      case (JBool b)
      with 3 nfr show ?thesis by (simp add: fieldMarkers_simps)
    next
      case (JNum n)
      with 3 nfr show ?thesis by (simp add: fieldMarkers_simps)
    next
      case (JStr s)
      with 3 nfr show ?thesis by (simp add: fieldMarkers_simps)
    next
      case (JArr xs)
      with nfv 3 have "scanValues xs refs = Inr (refs @ concat (map markers xs))"
        by simp
      with JArr 3 nfr show ?thesis by (simp add: fieldMarkers_simps)
    next
      case (JObj fs)
      with nfv 3 have "findAllReferences v = Inr (markers v)"
        by simp
      with JObj 3 nfr show ?thesis by (simp add: fieldMarkers_simps)
    qed
  qed
next
  case (4 refs)
  show ?case by simp
next
  case (5 v vs refs)
  show ?case
  proof
    assume "list_all nullFree (v # vs)"
    then have nfv: "nullFree v" and nfr: "list_all nullFree vs" by simp_all
    from nfv 5(1) have "findAllReferences v = Inr (markers v)" by simp
    with 5(2) nfr show "scanValues (v # vs) refs = Inr (refs @ concat (map markers (v # vs)))"
      by simp
  qed
qed

text \<open>
  On a document that holds no \<^verbatim>\<open>null\<close>, the traversal returns every marker, in
  traversal order, duplicates kept.
\<close>

lemma findAllReferences_nullFree:
  "nullFree input \<Longrightarrow> findAllReferences input = Inr (markers input)"
  using findAllReferences_nullFree_aux(1) by blast

lemma findAllReferences_nested_example:
  "findAllReferences
     (JObj [(''a'', JArr [JStr ''abc'', JObj [(''$ref'', JStr ''x'')],
                          JArr [JObj [(''$ref'', JStr ''y'')]]]),
            (''$ref'', JStr ''x''), (''$ref'', JNum 3)])
   = Inr [''x'', ''y'', ''x'']"
  by (simp add: indexKeys_def indexKey.simps)

text \<open>
  Claim C2. For any JSON-shaped value the Reference Resolver returns every reference
  marker, nested at arbitrary depth, in traversal order, duplicates preserved.

  The code does so on every document without \<^verbatim>\<open>null\<close>
  (\<open>findAllReferences_nullFree\<close>). A \<^verbatim>\<open>null\<close> anywhere the traversal reaches is passed
  to the recursive call, because \<^verbatim>\<open>typeof null === 'object'\<close>, and
  \<^verbatim>\<open>Object.keys(null)\<close> throws: on \<^verbatim>\<open>{"default": null, "$ref": "x"}\<close> the call
  ends in a TypeError and the marker \<^verbatim>\<open>"x"\<close> is not returned.
\<close>

theorem findAllReferences_null_TypeError:
  "findAllReferences (JObj [(''default'', JNull), (''$ref'', JStr ''x'')]) = Inl TypeError
   \<and> markers (JObj [(''default'', JNull), (''$ref'', JStr ''x'')]) = [''x'']"
  by simp

section \<open>Strings\<close>

text \<open>
  \<^verbatim>\<open>String.prototype.toLowerCase\<close>, on the ASCII letters; every other character is left
  as it is.
\<close>

definition toLowerChar :: "char \<Rightarrow> char" where
  "toLowerChar c =
     (case map_of (zip ''ABCDEFGHIJKLMNOPQRSTUVWXYZ'' ''abcdefghijklmnopqrstuvwxyz'') c of
        Some l \<Rightarrow> l
      | None \<Rightarrow> c)"

definition toLowerCase :: "string \<Rightarrow> string" where
  "toLowerCase s = map toLowerChar s"

text \<open>\<^verbatim>\<open>s.startsWith(p)\<close>.\<close>

definition startsWith :: "string \<Rightarrow> string \<Rightarrow> bool" where
  "startsWith s p = (take (length p) s = p)"

text \<open>
  \<^verbatim>\<open>s.split(sep)\<close> for a one-character separator: the pieces between the separators, at
  least one piece (\<^verbatim>\<open>"".split("#")\<close> is \<^verbatim>\<open>[""]\<close>).
\<close>

fun jsSplit :: "char \<Rightarrow> string \<Rightarrow> string list" where
  "jsSplit sep [] = [[]]"
| "jsSplit sep (c # cs) =
     (if c = sep then [] # jsSplit sep cs
      else (case jsSplit sep cs of [] \<Rightarrow> [[c]] | w # ws \<Rightarrow> (c # w) # ws))"

text \<open>
  Modelled from the spec: \<^verbatim>\<open>lowerCaseCompare\<close> is imported from \<^verbatim>\<open>../utils\<close>, which
  is not among the sources. The spec has type keys and document URIs "compared
  case-insensitively" by it, and the code only tests its result against \<^verbatim>\<open>0\<close>: the
  result is \<open>0\<close> exactly when the two strings are equal once lower-cased. A non-zero
  result is represented by \<open>1\<close>.
\<close>

definition lowerCaseCompare :: "string \<Rightarrow> string \<Rightarrow> int" where
  "lowerCaseCompare a b = (if toLowerCase a = toLowerCase b then 0 else 1)"

section \<open>Property reads and truthiness\<close>

text \<open>
  A JavaScript value the listing code handles is a JSON value or \<^verbatim>\<open>undefined\<close>.
  \<open>getProp v key\<close> is the read \<^verbatim>\<open>v[key]\<close>: a TypeError on \<^verbatim>\<open>undefined\<close> and
  \<^verbatim>\<open>null\<close>, the own property of that name where there is one, \<^verbatim>\<open>undefined\<close>
  otherwise. The fields of an object have distinct names. Inherited properties
  (\<^verbatim>\<open>length\<close>, \<^verbatim>\<open>constructor\<close>, ...) are not JSON values and are left out: the
  model covers the reads whose key is not the name of a built-in member.
\<close>

datatype jsval = Undefined | Val json

fun getProp :: "jsval \<Rightarrow> string \<Rightarrow> error + jsval" where
  "getProp Undefined key = Inl TypeError"
| "getProp (Val v) key =
     (case entries v of
        Inl e \<Rightarrow> Inl e
      | Inr kvs \<Rightarrow> Inr (case map_of kvs key of None \<Rightarrow> Undefined | Some x \<Rightarrow> Val x))"

text \<open>The values that \<^verbatim>\<open>!x\<close> does not negate to \<^verbatim>\<open>true\<close>.\<close>

fun truthy :: "jsval \<Rightarrow> bool" where
  "truthy Undefined = False"
| "truthy (Val JNull) = False"
| "truthy (Val (JBool b)) = b"
| "truthy (Val (JNum n)) = (n \<noteq> 0)"
| "truthy (Val (JStr s)) = (s \<noteq> [])"
| "truthy (Val (JArr xs)) = True"
| "truthy (Val (JObj fs)) = True"

section \<open>Schema Loader: \<^verbatim>\<open>readSchema\<close> and \<^verbatim>\<open>getResourceInfo\<close>\<close>

text \<open>
  The listing code reads \<^verbatim>\<open>constants.schemasBaseUri\<close> and the file system; both are
  parameters. \<open>readJsonFile p\<close> stands for
  \<^verbatim>\<open>JSON.parse(await readFile(path.resolve(path.join(constants.schemasBasePath, p))))\<close>.
\<close>

record listing_env =
  schemasBaseUri :: string
  readJsonFile :: "string \<Rightarrow> error + json"

text \<open>A resource descriptor \<^verbatim>\<open>{ apiVersion, type }\<close>.\<close>

record ('t, 'v) resource =
  apiVersion :: 'v
  type :: 't

text \<open>Sequencing of steps that may throw.\<close>

definition bindE :: "error + 'a \<Rightarrow> ('a \<Rightarrow> error + 'b) \<Rightarrow> error + 'b" where
  "bindE m f = (case m of Inl e \<Rightarrow> Inl e | Inr x \<Rightarrow> f x)"

text \<open>
  \<^verbatim>\<open>
  async function readSchema(schemaUri: string) {
      if (!schemaUri.toLowerCase().startsWith(constants.schemasBaseUri.toLowerCase() + '/')) {
          throw new Error(`Invalid schema Uri ${schemaUri}`);
      }
      const filePath = path.resolve(path.join(constants.schemasBasePath,
          schemaUri.substring(constants.schemasBaseUri.length + 1)));
      const fileContents = await readFile(filePath, { encoding: 'utf8'});
      return JSON.parse(fileContents);
  }
  \<close>
\<close>

definition readSchema :: "listing_env \<Rightarrow> string \<Rightarrow> error + json" where
  "readSchema env schemaUri =
     (if \<not> startsWith (toLowerCase schemaUri) (toLowerCase (schemasBaseUri env) @ ''/'')
      then Inl (InvalidSchemaUri schemaUri)
      else readJsonFile env (drop (length (schemasBaseUri env) + 1) schemaUri))"

text \<open>
  \<^verbatim>\<open>for (const pathElement of relativeRef.split('/')) { schema = schema[pathElement]; }\<close>
\<close>

fun descend :: "jsval \<Rightarrow> string list \<Rightarrow> error + jsval" where
  "descend schema [] = Inr schema"
| "descend schema (pathElement # rest) =
     (case getProp schema pathElement of
        Inl e \<Rightarrow> Inl e
      | Inr schema' \<Rightarrow> descend schema' rest)"

text \<open>
  The first half of \<^verbatim>\<open>getResourceInfo\<close>, up to the end of the descent:
  \<^verbatim>\<open>
      const schemaUri = schemaRef.split('#')[0];
      const relativeRef = schemaRef.split('#')[1].substring(1);
      let schema = await readSchema(schemaUri);
      for (const pathElement of relativeRef.split('/')) { ... }
  \<close>
  A reference without \<^verbatim>\<open>#\<close> has no second piece, and \<^verbatim>\<open>undefined.substring\<close> is a
  TypeError.
\<close>

definition resolveTarget :: "listing_env \<Rightarrow> string \<Rightarrow> error + jsval" where
  "resolveTarget env schemaRef =
     (case jsSplit CHR ''#'' schemaRef of
        schemaUri # fragment # _ \<Rightarrow>
          (let relativeRef = drop 1 fragment in
           bindE (readSchema env schemaUri)
             (\<lambda>schema. descend (Val schema) (jsSplit CHR ''/'' relativeRef)))
      | _ \<Rightarrow> Inl TypeError)"

text \<open>
  \<^verbatim>\<open>
      if (!schema['properties'] || !schema['properties']['type']
          || !schema['properties']['type']['enum'] || !schema['properties']['apiVersion']
          || !schema['properties']['apiVersion']['enum']) {
          throw new Error(`Unable to find expected properties for ${schemaRef}`)
      }
      const resourceTypes: string[] = schema['properties']['type']['enum'];
      const apiVersions: string[] = schema['properties']['apiVersion']['enum'];
  \<close>
  The five tests run left to right and stop at the first that holds.
\<close>

definition expectedProperties :: "string \<Rightarrow> jsval \<Rightarrow> error + jsval \<times> jsval" where
  "expectedProperties schemaRef schema =
     bindE (getProp schema ''properties'') (\<lambda>properties.
       if \<not> truthy properties then Inl (ExpectedPropertiesNotFound schemaRef)
       else bindE (getProp properties ''type'') (\<lambda>typeDecl.
         if \<not> truthy typeDecl then Inl (ExpectedPropertiesNotFound schemaRef)
         else bindE (getProp typeDecl ''enum'') (\<lambda>typeEnum.
           if \<not> truthy typeEnum then Inl (ExpectedPropertiesNotFound schemaRef)
           else bindE (getProp properties ''apiVersion'') (\<lambda>versionDecl.
             if \<not> truthy versionDecl then Inl (ExpectedPropertiesNotFound schemaRef)
             else bindE (getProp versionDecl ''enum'') (\<lambda>versionEnum.
               if \<not> truthy versionEnum then Inl (ExpectedPropertiesNotFound schemaRef)
               else Inr (typeEnum, versionEnum))))))"

text \<open>
  \<^verbatim>\<open>a.map(f)\<close> on a value the code has not checked to be an array: a TypeError when it
  is none (\<^verbatim>\<open>map\<close> is not a function then), the images in order otherwise, up to the
  first call of \<open>f\<close> that throws.
\<close>

fun mapE :: "('a \<Rightarrow> error + 'b) \<Rightarrow> 'a list \<Rightarrow> error + 'b list" where
  "mapE f [] = Inr []"
| "mapE f (x # xs) =
     (case f x of
        Inl e \<Rightarrow> Inl e
      | Inr y \<Rightarrow> (case mapE f xs of Inl e \<Rightarrow> Inl e | Inr ys \<Rightarrow> Inr (y # ys)))"

definition arrayMap :: "jsval \<Rightarrow> (json \<Rightarrow> error + 'b) \<Rightarrow> error + 'b list" where
  "arrayMap a f = (case a of Val (JArr xs) \<Rightarrow> mapE f xs | _ \<Rightarrow> Inl TypeError)"

text \<open>
  \<^verbatim>\<open>
      return resourceTypes.map(type => apiVersions.map(apiVersion => ({
          apiVersion,
          type,
      }))).reduce((a, b) => a.concat(b), []);
  \<close>
\<close>

definition crossProduct :: "jsval \<Rightarrow> jsval \<Rightarrow> error + (json, json) resource list" where
  "crossProduct resourceTypes apiVersions =
     bindE (arrayMap resourceTypes (\<lambda>type.
              arrayMap apiVersions (\<lambda>apiVersion. Inr \<lparr>apiVersion = apiVersion, type = type\<rparr>)))
       (\<lambda>rows. Inr (foldl (\<lambda>a b. a @ b) [] rows))"

definition getResourceInfo :: "listing_env \<Rightarrow> string \<Rightarrow> error + (json, json) resource list" where
  "getResourceInfo env schemaRef =
     bindE (resolveTarget env schemaRef) (\<lambda>schema.
       bindE (expectedProperties schemaRef schema) (\<lambda>(resourceTypes, apiVersions).
         crossProduct resourceTypes apiVersions))"

subsection \<open>What a target node declares\<close>

text \<open>
  Read off the document: \<open>field v key\<close> is the own property \<open>key\<close> of \<open>v\<close>, if any;
  \<open>propertyDecl node name\<close> is the declaration \<open>name\<close> under the node's \<^verbatim>\<open>properties\<close>,
  and \<open>propertyEnum node name\<close> the \<^verbatim>\<open>enum\<close> of that declaration. Something is
  \<open>present\<close> when it is there and JavaScript takes it for true (so not \<^verbatim>\<open>null\<close>,
  \<^verbatim>\<open>false\<close>, \<^verbatim>\<open>0\<close> or \<^verbatim>\<open>""\<close>).
\<close>

definition field :: "json \<Rightarrow> string \<Rightarrow> json option" where
  "field v key = (case entries v of Inl e \<Rightarrow> None | Inr kvs \<Rightarrow> map_of kvs key)"

definition propertyDecl :: "json \<Rightarrow> string \<Rightarrow> json option" where
  "propertyDecl node name =
     (case field node ''properties'' of None \<Rightarrow> None | Some p \<Rightarrow> field p name)"

definition propertyEnum :: "json \<Rightarrow> string \<Rightarrow> json option" where
  "propertyEnum node name =
     (case propertyDecl node name of None \<Rightarrow> None | Some d \<Rightarrow> field d ''enum'')"

definition present :: "json option \<Rightarrow> bool" where
  "present x = (case x of None \<Rightarrow> False | Some v \<Rightarrow> truthy (Val v))"

text \<open>Every (type, apiVersion) pair of two enumerations, types outermost.\<close>

definition pairs :: "json list \<Rightarrow> json list \<Rightarrow> (json, json) resource list" where
  "pairs ts vs = concat (map (\<lambda>t. map (\<lambda>v. \<lparr>apiVersion = v, type = t\<rparr>) vs) ts)"

subsection \<open>A small schema tree\<close>

definition exampleVm :: json where
  "exampleVm = JObj [(''properties'', JObj [
         (''type'', JObj [(''enum'', JArr [JStr ''X'', JStr ''Y''])]),
         (''apiVersion'', JObj [(''enum'', JArr [JStr ''v1'', JStr ''v2''])])])]"

definition exampleHalf :: json where
  "exampleHalf = JObj [(''properties'', JObj [
         (''type'', JObj [(''enum'', JArr [JStr ''X'', JStr ''Y''])])])]"

definition exampleDoc :: json where
  "exampleDoc =
     JObj [(''resourceDefinitions'', JObj [(''vm'', exampleVm), (''half'', exampleHalf)])]"

definition exampleEnv :: listing_env where
  "exampleEnv = \<lparr>schemasBaseUri = ''https://s.example/schemas'',
      readJsonFile = (\<lambda>p. if p = ''2020/A.json'' then Inr exampleDoc
                          else Inl (External ''ENOENT''))\<rparr>"

subsection \<open>The five tests, on the document\<close>

lemma getProp_field:
  "v \<noteq> JNull \<Longrightarrow>
   getProp (Val v) key = Inr (case field v key of None \<Rightarrow> Undefined | Some x \<Rightarrow> Val x)"
  by (cases v) (simp_all add: field_def)

lemma truthy_not_null: "truthy (Val v) \<Longrightarrow> v \<noteq> JNull"
  by (cases v) simp_all

lemma field_Some_truthy: "field v key = Some x \<Longrightarrow> truthy (Val v)"
  by (cases v) (auto simp: field_def indexKeys_def)

lemma present_enum_decl:
  "present (propertyEnum node name) \<Longrightarrow> present (propertyDecl node name)"
  by (auto simp: present_def propertyEnum_def dest: field_Some_truthy split: option.splits)

lemma expectedProperties_cases:
  assumes "node \<noteq> JNull"
  shows "expectedProperties schemaRef (Val node) =
     (if present (propertyDecl node ''type'') \<and> present (propertyEnum node ''type'')
         \<and> present (propertyDecl node ''apiVersion'') \<and> present (propertyEnum node ''apiVersion'')
      then Inr (Val (the (propertyEnum node ''type'')), Val (the (propertyEnum node ''apiVersion'')))
      else Inl (ExpectedPropertiesNotFound schemaRef))"
proof (cases "field node ''properties''")
  case None
  with assms show ?thesis
    by (simp del: getProp.simps add: expectedProperties_def bindE_def getProp_field
        propertyDecl_def propertyEnum_def present_def)
next
  case (Some p)
  note p = this
  show ?thesis
  proof (cases "truthy (Val p)")
    case False
    then have "field p name = None" for name
      using field_Some_truthy [of p name] by (cases "field p name") auto
    with assms p False show ?thesis
      by (simp del: getProp.simps add: expectedProperties_def bindE_def getProp_field
          propertyDecl_def propertyEnum_def present_def)
  next
    case True
    then have pn: "p \<noteq> JNull" by (rule truthy_not_null)
    show ?thesis
    proof (cases "present (propertyDecl node ''type'')")
      case False
      with assms p True pn show ?thesis
        by (auto simp del: getProp.simps simp add: expectedProperties_def bindE_def
            getProp_field propertyDecl_def present_def split: option.splits)
    next
      case tdecl: True
      then obtain td where td: "field p ''type'' = Some td" "truthy (Val td)"
        using p by (auto simp: present_def propertyDecl_def split: option.splits)
      then have tdn: "td \<noteq> JNull" using truthy_not_null by blast
      show ?thesis
      proof (cases "present (propertyEnum node ''type'')")
        case False
        with assms p True pn td tdn show ?thesis
          by (auto simp del: getProp.simps simp add: expectedProperties_def bindE_def
              getProp_field propertyDecl_def propertyEnum_def present_def split: option.splits)
      next
        case tenum: True
        then obtain te where te: "field td ''enum'' = Some te" "truthy (Val te)"
          using p td
          by (auto simp: present_def propertyDecl_def propertyEnum_def split: option.splits)
        show ?thesis
        proof (cases "present (propertyDecl node ''apiVersion'')")
          case False
          then have "\<not> present (propertyEnum node ''apiVersion'')"
            using present_enum_decl by blast
          with False assms p True pn td tdn te show ?thesis
            by (auto simp del: getProp.simps simp add: expectedProperties_def bindE_def
                getProp_field propertyDecl_def present_def split: option.splits)
        next
          case vdecl: True
          then obtain vd where vd: "field p ''apiVersion'' = Some vd" "truthy (Val vd)"
            using p by (auto simp: present_def propertyDecl_def split: option.splits)
          then have vdn: "vd \<noteq> JNull" using truthy_not_null by blast
          from assms p True pn td tdn te vd vdn tdecl tenum vdecl show ?thesis
            by (auto simp del: getProp.simps simp add: expectedProperties_def bindE_def
                getProp_field propertyDecl_def propertyEnum_def present_def
                split: option.splits)
        qed
      qed
    qed
  qed
qed

subsection \<open>The cross product\<close>

lemma mapE_total: "mapE (\<lambda>x. Inr (f x)) xs = Inr (map f xs)"
  by (induction xs) simp_all

lemma foldl_append_concat: "foldl (\<lambda>a b. a @ b) acc rows = acc @ concat rows"
  by (induction rows arbitrary: acc) simp_all

lemma crossProduct_arrays:
  "crossProduct (Val (JArr ts)) (Val (JArr vs)) = Inr (pairs ts vs)"
proof -
  have "(\<lambda>type. arrayMap (Val (JArr vs)) (\<lambda>apiVersion. Inr \<lparr>apiVersion = apiVersion, type = type\<rparr>))
        = (\<lambda>type. Inr (map (\<lambda>v. \<lparr>apiVersion = v, type = type\<rparr>) vs))"
    by (simp add: arrayMap_def mapE_total)
  then show ?thesis
    by (simp add: crossProduct_def arrayMap_def mapE_total bindE_def foldl_append_concat pairs_def)
qed

lemma mapE_not_expected:
  assumes "\<And>x. f x \<noteq> Inl (ExpectedPropertiesNotFound r)"
  shows "mapE f xs \<noteq> Inl (ExpectedPropertiesNotFound r)"
  using assms by (induction xs) (auto split: sum.splits)

lemma arrayMap_not_expected:
  assumes "\<And>x. f x \<noteq> Inl (ExpectedPropertiesNotFound r)"
  shows "arrayMap a f \<noteq> Inl (ExpectedPropertiesNotFound r)"
  using mapE_not_expected [of f r, OF assms]
  by (auto simp: arrayMap_def split: jsval.splits json.splits)

lemma crossProduct_not_expected:
  "crossProduct a b \<noteq> Inl (ExpectedPropertiesNotFound r)"
proof -
  have "arrayMap a (\<lambda>type. arrayMap b (\<lambda>apiVersion. Inr \<lparr>apiVersion = apiVersion, type = type\<rparr>))
          \<noteq> Inl (ExpectedPropertiesNotFound r)"
    by (rule arrayMap_not_expected) (rule arrayMap_not_expected, simp)
  then show ?thesis
    by (auto simp: crossProduct_def bindE_def split: sum.splits)
qed

lemma getResourceInfo_target:
  "resolveTarget env schemaRef = Inr schema \<Longrightarrow>
   getResourceInfo env schemaRef =
     bindE (expectedProperties schemaRef schema) (\<lambda>(resourceTypes, apiVersions).
         crossProduct resourceTypes apiVersions)"
  by (simp add: getResourceInfo_def bindE_def)

lemma getResourceInfo_arrays:
  assumes "resolveTarget env schemaRef = Inr (Val node)"
    and "propertyEnum node ''type'' = Some (JArr ts)"
    and "propertyEnum node ''apiVersion'' = Some (JArr vs)"
  shows "getResourceInfo env schemaRef = Inr (pairs ts vs)"
proof -
  from assms(2) have nn: "node \<noteq> JNull"
    by (auto simp: propertyEnum_def propertyDecl_def field_def split: option.splits)
  have pe: "present (propertyEnum node ''type'')" "present (propertyEnum node ''apiVersion'')"
    using assms(2,3) by (simp_all add: present_def)
  with present_enum_decl
  have pd: "present (propertyDecl node ''type'')" "present (propertyDecl node ''apiVersion'')"
    by blast+
  show ?thesis
    using pe pd assms(2,3)
    by (simp add: getResourceInfo_target [OF assms(1)] expectedProperties_cases [OF nn]
        bindE_def crossProduct_arrays)
qed

lemma example_resolve_vm:
  "resolveTarget exampleEnv ''https://S.example/schemas/2020/A.json#/resourceDefinitions/vm''
     = Inr (Val exampleVm)"
  by (simp add: exampleEnv_def exampleDoc_def resolveTarget_def readSchema_def bindE_def
      startsWith_def toLowerCase_def toLowerChar_def)

lemma example_resolve_half:
  "resolveTarget exampleEnv ''https://S.example/schemas/2020/A.json#/resourceDefinitions/half''
     = Inr (Val exampleHalf)"
  by (simp add: exampleEnv_def exampleDoc_def resolveTarget_def readSchema_def bindE_def
      startsWith_def toLowerCase_def toLowerChar_def)

lemma example_vm_enums:
  "propertyEnum exampleVm ''type'' = Some (JArr [JStr ''X'', JStr ''Y''])"
  "propertyEnum exampleVm ''apiVersion'' = Some (JArr [JStr ''v1'', JStr ''v2''])"
  by (simp_all add: exampleVm_def field_def propertyDecl_def propertyEnum_def)

text \<open>
  Claim C7, as amended. Once the descent has reached a target node (a value other than
  \<^verbatim>\<open>null\<close>), resolving the reference fails with the "unable to find expected
  properties" error if and only if the node lacks at least one of the four: the
  \<^verbatim>\<open>type\<close> declaration and its enumeration, the \<^verbatim>\<open>apiVersion\<close> declaration and
  its enumeration, under \<^verbatim>\<open>properties\<close> (lacking: absent, or a value JavaScript
  takes for false). When both enumerations are there as arrays, no error is raised and the
  descriptors built from the two enumerations are returned.
\<close>

theorem getResourceInfo_expected_properties:
  assumes "resolveTarget env schemaRef = Inr (Val node)" and "node \<noteq> JNull"
  shows "(getResourceInfo env schemaRef = Inl (ExpectedPropertiesNotFound schemaRef)
            \<longleftrightarrow> \<not> (present (propertyDecl node ''type'') \<and> present (propertyEnum node ''type'')
                   \<and> present (propertyDecl node ''apiVersion'')
                   \<and> present (propertyEnum node ''apiVersion'')))
         \<and> (\<forall>ts vs. propertyEnum node ''type'' = Some (JArr ts)
                   \<and> propertyEnum node ''apiVersion'' = Some (JArr vs)
               \<longrightarrow> getResourceInfo env schemaRef = Inr (pairs ts vs))"
proof (intro conjI allI impI)
  show "getResourceInfo env schemaRef = Inl (ExpectedPropertiesNotFound schemaRef)
            \<longleftrightarrow> \<not> (present (propertyDecl node ''type'') \<and> present (propertyEnum node ''type'')
                   \<and> present (propertyDecl node ''apiVersion'')
                   \<and> present (propertyEnum node ''apiVersion''))"
    using crossProduct_not_expected
    by (simp add: getResourceInfo_target [OF assms(1)] expectedProperties_cases [OF assms(2)]
        bindE_def)
next
  fix ts vs
  assume "propertyEnum node ''type'' = Some (JArr ts)
             \<and> propertyEnum node ''apiVersion'' = Some (JArr vs)"
  with assms(1) show "getResourceInfo env schemaRef = Inr (pairs ts vs)"
    by (simp add: getResourceInfo_arrays)
qed

theorem getResourceInfo_expected_properties_witness:
  "resolveTarget exampleEnv ''https://S.example/schemas/2020/A.json#/resourceDefinitions/vm''
     = Inr (Val exampleVm)
   \<and> exampleVm \<noteq> JNull
   \<and> present (propertyDecl exampleVm ''type'') \<and> present (propertyEnum exampleVm ''type'')
   \<and> present (propertyDecl exampleVm ''apiVersion'') \<and> present (propertyEnum exampleVm ''apiVersion'')
   \<and> getResourceInfo exampleEnv ''https://S.example/schemas/2020/A.json#/resourceDefinitions/vm''
       \<noteq> Inl (ExpectedPropertiesNotFound
             ''https://S.example/schemas/2020/A.json#/resourceDefinitions/vm'')
   \<and> getResourceInfo exampleEnv ''https://S.example/schemas/2020/A.json#/resourceDefinitions/vm''
       = Inr (pairs [JStr ''X'', JStr ''Y''] [JStr ''v1'', JStr ''v2''])"
proof -
  have n: "exampleVm \<noteq> JNull" by (simp add: exampleVm_def)
  have p: "present (propertyDecl exampleVm ''type'')" "present (propertyEnum exampleVm ''type'')"
    "present (propertyDecl exampleVm ''apiVersion'')" "present (propertyEnum exampleVm ''apiVersion'')"
    by (simp_all add: exampleVm_def field_def propertyDecl_def propertyEnum_def present_def)
  from getResourceInfo_expected_properties [OF example_resolve_vm n] p example_vm_enums
  show ?thesis using example_resolve_vm n by blast
qed

text \<open>
  Claim C7 as stated has the error raised only when all four are lacking. The node
  \<open>exampleHalf\<close> has its \<^verbatim>\<open>type\<close> declaration and enumeration and lacks the two of
  \<^verbatim>\<open>apiVersion\<close>: the error is raised all the same.
\<close>

theorem getResourceInfo_one_lacking_counterexample:
  "resolveTarget exampleEnv ''https://S.example/schemas/2020/A.json#/resourceDefinitions/half''
     = Inr (Val exampleHalf)
   \<and> getResourceInfo exampleEnv ''https://S.example/schemas/2020/A.json#/resourceDefinitions/half''
       = Inl (ExpectedPropertiesNotFound
             ''https://S.example/schemas/2020/A.json#/resourceDefinitions/half'')
   \<and> present (propertyDecl exampleHalf ''type'') \<and> present (propertyEnum exampleHalf ''type'')"
proof -
  have "expectedProperties r (Val exampleHalf) = Inl (ExpectedPropertiesNotFound r)" for r
    by (simp add: expectedProperties_def bindE_def exampleHalf_def)
  then have "getResourceInfo exampleEnv
       ''https://S.example/schemas/2020/A.json#/resourceDefinitions/half''
       = Inl (ExpectedPropertiesNotFound
             ''https://S.example/schemas/2020/A.json#/resourceDefinitions/half'')"
    by (simp add: getResourceInfo_target [OF example_resolve_half] bindE_def)
  moreover have "present (propertyDecl exampleHalf ''type'')"
      "present (propertyEnum exampleHalf ''type'')"
    by (simp_all add: exampleHalf_def field_def propertyDecl_def propertyEnum_def present_def)
  ultimately show ?thesis using example_resolve_half by blast
qed

text \<open>
  Claim C8. For a resolved target whose \<^verbatim>\<open>type\<close> enumeration is the array \<open>ts\<close> and
  whose \<^verbatim>\<open>apiVersion\<close> enumeration is the array \<open>vs\<close>, the descriptors returned are
  every (type, apiVersion) pair of the two enumerations: as a list, the pairs of each type
  in turn; as a set, the cross product.
\<close>

theorem getResourceInfo_cross_product:
  assumes "resolveTarget env schemaRef = Inr (Val node)"
    and "propertyEnum node ''type'' = Some (JArr ts)"
    and "propertyEnum node ''apiVersion'' = Some (JArr vs)"
  shows "\<exists>ds. getResourceInfo env schemaRef = Inr ds
           \<and> ds = concat (map (\<lambda>t. map (\<lambda>v. \<lparr>apiVersion = v, type = t\<rparr>) vs) ts)
           \<and> set ds = {\<lparr>apiVersion = v, type = t\<rparr> | t v. t \<in> set ts \<and> v \<in> set vs}
           \<and> length ds = length ts * length vs"
proof -
  have r: "getResourceInfo env schemaRef = Inr (pairs ts vs)"
    using assms by (rule getResourceInfo_arrays)
  have l: "length (pairs ts vs) = length ts * length vs"
    by (induction ts) (simp_all add: pairs_def)
  have st: "set (pairs ts vs) = {\<lparr>apiVersion = v, type = t\<rparr> | t v. t \<in> set ts \<and> v \<in> set vs}"
    by (auto simp: pairs_def)
  from r l st show ?thesis by (simp add: pairs_def)
qed

theorem getResourceInfo_cross_product_witness:
  "resolveTarget exampleEnv ''https://S.example/schemas/2020/A.json#/resourceDefinitions/vm''
     = Inr (Val exampleVm)
   \<and> propertyEnum exampleVm ''type'' = Some (JArr [JStr ''X'', JStr ''Y''])
   \<and> propertyEnum exampleVm ''apiVersion'' = Some (JArr [JStr ''v1'', JStr ''v2''])
   \<and> getResourceInfo exampleEnv ''https://S.example/schemas/2020/A.json#/resourceDefinitions/vm''
       = Inr [\<lparr>apiVersion = JStr ''v1'', type = JStr ''X''\<rparr>,
              \<lparr>apiVersion = JStr ''v2'', type = JStr ''X''\<rparr>,
              \<lparr>apiVersion = JStr ''v1'', type = JStr ''Y''\<rparr>,
              \<lparr>apiVersion = JStr ''v2'', type = JStr ''Y''\<rparr>]"
proof -
  from getResourceInfo_cross_product [OF example_resolve_vm example_vm_enums]
  show ?thesis using example_resolve_vm example_vm_enums by auto
qed

section \<open>Resource Cataloger\<close>

subsection \<open>Candidate references: \<^verbatim>\<open>findAllResourceReferences\<close>\<close>











subsection \<open>The catalog\<close>

text \<open>
  \<^verbatim>\<open>const allResources: {[type: string]: string[]} = {};\<close> The catalog is an ordinary
  object used as a map. It is kept as
  \<^item> \<open>props\<close>: its own properties, each key once, in the order they were created
    (\<^verbatim>\<open>Object.keys\<close> lists integer-like keys first; no lookup of the code depends on
    the order of keys that differ once lower-cased);
  \<^item> \<open>proto\<close>: the array that has been made its prototype, if any. An assignment to the
    key \<^verbatim>\<open>__proto__\<close> of such an object runs the setter inherited from
    \<^verbatim>\<open>Object.prototype\<close>: the assigned array becomes the prototype of the object and
    no property is created; a read of \<^verbatim>\<open>__proto__\<close> yields the prototype.
\<close>

record 'v catalog =
  props :: "(string \<times> 'v list) list"
  proto :: "'v list option"

definition emptyCatalog :: "'v catalog" where
  "emptyCatalog = \<lparr>props = [], proto = None\<rparr>"

text \<open>\<^verbatim>\<open>allResources[key] = vs\<close>\<close>

definition setKey :: "'v catalog \<Rightarrow> string \<Rightarrow> 'v list \<Rightarrow> 'v catalog" where
  "setKey allResources key vs =
     (if key \<in> set (map fst (props allResources))
      then allResources\<lparr>props := map (\<lambda>(k, old). if k = key then (k, vs) else (k, old))
                                     (props allResources)\<rparr>
      else if key = ''__proto__'' then allResources\<lparr>proto := Some vs\<rparr>
      else allResources\<lparr>props := props allResources @ [(key, vs)]\<rparr>)"

text \<open>
  \<^verbatim>\<open>allResources[key].push(v)\<close>: the array read is the own property of that name; for
  \<^verbatim>\<open>__proto__\<close>, when it is no own property, the prototype. Where the read yields no
  array (\<^verbatim>\<open>undefined\<close>, \<^verbatim>\<open>Object.prototype\<close> or an inherited member),
  \<^verbatim>\<open>push\<close> is not a function of it and the call is a TypeError.
\<close>

definition pushOwn :: "(string \<times> 'v list) list \<Rightarrow> string \<Rightarrow> 'v \<Rightarrow> (string \<times> 'v list) list" where
  "pushOwn ps key v = map (\<lambda>(k, vs). if k = key then (k, vs @ [v]) else (k, vs)) ps"

definition pushVersion :: "'v catalog \<Rightarrow> string \<Rightarrow> 'v \<Rightarrow> error + 'v catalog" where
  "pushVersion allResources key v =
     (if key \<in> set (map fst (props allResources))
      then Inr (allResources\<lparr>props := pushOwn (props allResources) key v\<rparr>)
      else if key = ''__proto__''
      then (case proto allResources of
              Some vs \<Rightarrow> Inr (allResources\<lparr>proto := Some (vs @ [v])\<rparr>)
            | None \<Rightarrow> Inl TypeError)
      else Inl TypeError)"

text \<open>
  The body of the loop over the descriptors of a reference:
  \<^verbatim>\<open>
      let resourceKey = Object.keys(allResources)
          .find(key => lowerCaseCompare(key, resource.type) === 0);
      if (resourceKey === undefined) {
          resourceKey = resource.type;
          allResources[resourceKey] = [];
      }
      allResources[resourceKey].push(resource.apiVersion);
  \<close>
  The descriptors have strings as types, as the source declares them.
\<close>

definition insertResource :: "'v catalog \<Rightarrow> (string, 'v) resource \<Rightarrow> error + 'v catalog" where
  "insertResource allResources resource =
     (case find (\<lambda>key. lowerCaseCompare key (type resource) = 0) (map fst (props allResources)) of
        None \<Rightarrow>
          pushVersion (setKey allResources (type resource) []) (type resource) (apiVersion resource)
      | Some resourceKey \<Rightarrow> pushVersion allResources resourceKey (apiVersion resource))"

text \<open>\<^verbatim>\<open>for (const resource of resources) { ... }\<close>\<close>

fun insertResources :: "'v catalog \<Rightarrow> (string, 'v) resource list \<Rightarrow> error + 'v catalog" where
  "insertResources allResources [] = Inr allResources"
| "insertResources allResources (resource # rest) =
     bindE (insertResource allResources resource) (\<lambda>allResources'.
       insertResources allResources' rest)"

text \<open>
  The versions a key is to hold after the descriptors \<open>ds\<close> have been inserted: the
  version of every descriptor whose type matches the key, in insertion order, each
  insertion counted.
\<close>

definition versionsOf :: "string \<Rightarrow> (string, 'v) resource list \<Rightarrow> 'v list" where
  "versionsOf key ds = map apiVersion (filter (\<lambda>d. lowerCaseCompare key (type d) = 0) ds)"

text \<open>
  The same without the matching descriptors of type \<^verbatim>\<open>__proto__\<close> that came before
  the first matching descriptor of another type: those were inserted when the key did not
  exist yet, and created none.
\<close>

definition keptOf :: "string \<Rightarrow> (string, 'v) resource list \<Rightarrow> 'v list" where
  "keptOf key ds =
     map apiVersion (dropWhile (\<lambda>d. type d = ''__proto__'')
                       (filter (\<lambda>d. lowerCaseCompare key (type d) = 0) ds))"

text \<open>No two keys of the catalog are equal once lower-cased.\<close>

definition caseDistinct :: "(string \<times> 'v list) list \<Rightarrow> bool" where
  "caseDistinct ps = distinct (map (\<lambda>(k, vs). toLowerCase k) ps)"

subsection \<open>A small set of root documents\<close>







subsection \<open>Facts about the string operations\<close>

lemma lowerCaseCompare_zero: "lowerCaseCompare a b = 0 \<longleftrightarrow> toLowerCase a = toLowerCase b"
  by (simp add: lowerCaseCompare_def)







subsection \<open>Facts about the candidate references\<close>










subsection \<open>Facts about the catalog\<close>

lemma find_Some_holds: "find P xs = Some x \<Longrightarrow> P x \<and> x \<in> set xs"
  by (induction xs) (auto split: if_splits)

lemma pushOwn_keys: "map fst (pushOwn ps key v) = map fst ps"
  by (induction ps) (auto simp: pushOwn_def)

lemma pushOwn_caseDistinct: "caseDistinct (pushOwn ps key v) = caseDistinct ps"
proof -
  have "map (\<lambda>(k, vs). toLowerCase k) (pushOwn ps key v) = map (\<lambda>(k, vs). toLowerCase k) ps"
    by (induction ps) (auto simp: pushOwn_def)
  then show ?thesis by (simp add: caseDistinct_def)
qed

lemma pushOwn_mem:
  "(k, vs') \<in> set (pushOwn ps key v) \<Longrightarrow>
   \<exists>vs. (k, vs) \<in> set ps \<and> vs' = (if k = key then vs @ [v] else vs)"
  by (induction ps) (auto simp: pushOwn_def split: if_splits)

lemma pushOwn_absent: "key \<notin> set (map fst ps) \<Longrightarrow> pushOwn ps key v = ps"
  by (induction ps) (auto simp: pushOwn_def)

lemma caseDistinct_keys:
  assumes "caseDistinct ps" and "(k, vs) \<in> set ps" and "(k', vs') \<in> set ps"
    and "toLowerCase k = toLowerCase k'"
  shows "k = k'"
proof -
  from assms(1) have "inj_on (\<lambda>(k, vs). toLowerCase k) (set ps)"
    by (simp add: caseDistinct_def distinct_map)
  from inj_onD [OF this, of "(k, vs)" "(k', vs')"] assms(2-4) show ?thesis by simp
qed

lemma insertResource_existing:
  assumes "find (\<lambda>key. lowerCaseCompare key (type r) = 0) (map fst (props cat)) = Some k"
  shows "insertResource cat r = Inr (cat\<lparr>props := pushOwn (props cat) k (apiVersion r)\<rparr>)"
    and "k \<in> set (map fst (props cat))" and "lowerCaseCompare k (type r) = 0"
proof -
  from find_Some_holds [OF assms] show k: "k \<in> set (map fst (props cat))" by blast
  from find_Some_holds [OF assms] show "lowerCaseCompare k (type r) = 0" by blast
  from k assms show "insertResource cat r = Inr (cat\<lparr>props := pushOwn (props cat) k (apiVersion r)\<rparr>)"
    by (simp add: insertResource_def pushVersion_def)
qed

lemma no_match_absent:
  assumes "\<forall>k \<in> set (map fst ps). lowerCaseCompare k t \<noteq> 0"
  shows "t \<notin> set (map fst ps)"
proof -
  have "lowerCaseCompare t t = 0" by (simp add: lowerCaseCompare_def)
  with assms show ?thesis by blast
qed

lemma insertResource_new:
  assumes "\<forall>k \<in> set (map fst (props cat)). lowerCaseCompare k (type r) \<noteq> 0"
    and "type r \<noteq> ''__proto__''"
  shows "insertResource cat r = Inr (cat\<lparr>props := props cat @ [(type r, [apiVersion r])]\<rparr>)"
proof -
  from assms(1) have n: "find (\<lambda>key. lowerCaseCompare key (type r) = 0) (map fst (props cat)) = None"
    by (simp add: find_None_iff)
  from assms(1) have notin: "type r \<notin> set (map fst (props cat))" by (rule no_match_absent)
  with n assms(2) show ?thesis
    by (simp add: insertResource_def setKey_def pushVersion_def pushOwn_def pushOwn_absent
        [unfolded pushOwn_def])
qed

lemma insertResource_proto:
  assumes "\<forall>k \<in> set (map fst (props cat)). lowerCaseCompare k (type r) \<noteq> 0"
    and "type r = ''__proto__''"
  shows "insertResource cat r = Inr (cat\<lparr>proto := Some [apiVersion r]\<rparr>)"
proof -
  from assms(1) have n: "find (\<lambda>key. lowerCaseCompare key (type r) = 0) (map fst (props cat)) = None"
    by (simp add: find_None_iff)
  from assms(1) have notin: "type r \<notin> set (map fst (props cat))" by (rule no_match_absent)
  with n assms(2) show ?thesis
    by (simp add: insertResource_def setKey_def pushVersion_def)
qed

lemma insertResources_snoc:
  "insertResources cat (ds @ [r]) = bindE (insertResources cat ds) (\<lambda>cat'. insertResource cat' r)"
proof (induction ds arbitrary: cat)
  case Nil
  show ?case by (simp add: bindE_def split: sum.splits)
next
  case (Cons d ds)
  show ?case by (cases "insertResource cat d") (simp_all add: bindE_def Cons.IH)
qed

lemma keptOf_snoc_other:
  "lowerCaseCompare k (type r) \<noteq> 0 \<Longrightarrow> keptOf k (ds @ [r]) = keptOf k ds"
  by (simp add: keptOf_def)

lemma keptOf_snoc_started:
  assumes "lowerCaseCompare k (type r) = 0"
    and "d \<in> set ds" and "lowerCaseCompare k (type d) = 0" and "type d \<noteq> ''__proto__''"
  shows "keptOf k (ds @ [r]) = keptOf k ds @ [apiVersion r]"
proof -
  let ?F = "filter (\<lambda>d. lowerCaseCompare k (type d) = 0) ds"
  from assms(2,3) have "d \<in> set ?F" by simp
  with assms(4)
  have "dropWhile (\<lambda>d. type d = ''__proto__'') (?F @ [r])
          = dropWhile (\<lambda>d. type d = ''__proto__'') ?F @ [r]"
    by (intro dropWhile_append1) auto
  with assms(1) show ?thesis by (simp add: keptOf_def)
qed

lemma keptOf_snoc_first:
  assumes "lowerCaseCompare k (type r) = 0" and "type r \<noteq> ''__proto__''"
    and "\<forall>d \<in> set ds. lowerCaseCompare k (type d) = 0 \<longrightarrow> type d = ''__proto__''"
  shows "keptOf k (ds @ [r]) = [apiVersion r]"
proof -
  let ?F = "filter (\<lambda>d. lowerCaseCompare k (type d) = 0) ds"
  from assms(3) have "\<forall>d \<in> set ?F. type d = ''__proto__''" by simp
  then have "dropWhile (\<lambda>d. type d = ''__proto__'') (?F @ [r])
          = dropWhile (\<lambda>d. type d = ''__proto__'') [r]"
    by (intro dropWhile_append2) auto
  with assms(1,2) show ?thesis by (simp add: keptOf_def)
qed

lemma insertResource_step:
  assumes inv: "caseDistinct (props cat)"
    and vers: "\<forall>(k, vs) \<in> set (props cat).
                 k \<noteq> ''__proto__'' \<and> (\<exists>d \<in> set ds. type d = k) \<and> vs = keptOf k ds"
    and cover: "\<forall>d \<in> set ds. type d \<noteq> ''__proto__''
                  \<longrightarrow> (\<exists>k \<in> set (map fst (props cat)). lowerCaseCompare k (type d) = 0)"
  shows "\<exists>cat'. insertResource cat r = Inr cat'
       \<and> caseDistinct (props cat')
       \<and> (\<forall>(k, vs) \<in> set (props cat').
             k \<noteq> ''__proto__'' \<and> (\<exists>d \<in> set (ds @ [r]). type d = k) \<and> vs = keptOf k (ds @ [r]))
       \<and> (\<forall>d \<in> set (ds @ [r]). type d \<noteq> ''__proto__''
             \<longrightarrow> (\<exists>k \<in> set (map fst (props cat')). lowerCaseCompare k (type d) = 0))"
proof (cases "find (\<lambda>key. lowerCaseCompare key (type r) = 0) (map fst (props cat))")
  case None
  then have nomatch: "\<forall>k \<in> set (map fst (props cat)). lowerCaseCompare k (type r) \<noteq> 0"
    by (simp add: find_None_iff)
  have oldkeys: "k \<noteq> ''__proto__'' \<and> (\<exists>d \<in> set (ds @ [r]). type d = k) \<and> vs = keptOf k (ds @ [r])"
    if "(k, vs) \<in> set (props cat)" for k vs
  proof -
    from that have "k \<in> set (map fst (props cat))" by force
    with nomatch have "lowerCaseCompare k (type r) \<noteq> 0" by blast
    with that vers show ?thesis by (auto simp: keptOf_snoc_other)
  qed
  show ?thesis
  proof (cases "type r = ''__proto__''")
    case True
    let ?cat = "cat\<lparr>proto := Some [apiVersion r]\<rparr>"
    have "insertResource cat r = Inr ?cat"
      using nomatch True by (rule insertResource_proto)
    moreover have "caseDistinct (props ?cat)" using inv by simp
    moreover have "\<forall>(k, vs) \<in> set (props ?cat).
             k \<noteq> ''__proto__'' \<and> (\<exists>d \<in> set (ds @ [r]). type d = k) \<and> vs = keptOf k (ds @ [r])"
      using oldkeys by auto
    moreover have "\<forall>d \<in> set (ds @ [r]). type d \<noteq> ''__proto__''
             \<longrightarrow> (\<exists>k \<in> set (map fst (props ?cat)). lowerCaseCompare k (type d) = 0)"
      using cover True by auto
    ultimately show ?thesis by blast
  next
    case False
    let ?cat = "cat\<lparr>props := props cat @ [(type r, [apiVersion r])]\<rparr>"
    have self: "lowerCaseCompare (type r) (type r) = 0" by (simp add: lowerCaseCompare_def)
    have i: "insertResource cat r = Inr ?cat"
      using nomatch False by (rule insertResource_new)
    have c1: "caseDistinct (props ?cat)"
    proof -
      from nomatch have "toLowerCase (type r) \<notin> set (map (\<lambda>(k, vs). toLowerCase k) (props cat))"
        by (auto simp: lowerCaseCompare_zero)
      with inv show ?thesis by (simp add: caseDistinct_def)
    qed
    have early: "\<forall>d \<in> set ds. lowerCaseCompare (type r) (type d) = 0 \<longrightarrow> type d = ''__proto__''"
    proof (intro ballI impI)
      fix d assume d: "d \<in> set ds" and m: "lowerCaseCompare (type r) (type d) = 0"
      show "type d = ''__proto__''"
      proof (rule ccontr)
        assume "type d \<noteq> ''__proto__''"
        with cover d obtain k where "k \<in> set (map fst (props cat))" "lowerCaseCompare k (type d) = 0"
          by blast
        with m nomatch show False by (auto simp: lowerCaseCompare_zero)
      qed
    qed
    have new: "keptOf (type r) (ds @ [r]) = [apiVersion r]"
      using self False early by (rule keptOf_snoc_first)
    have c2: "\<forall>(k, vs) \<in> set (props ?cat).
             k \<noteq> ''__proto__'' \<and> (\<exists>d \<in> set (ds @ [r]). type d = k) \<and> vs = keptOf k (ds @ [r])"
      using oldkeys new False by auto
    have c3: "\<forall>d \<in> set (ds @ [r]). type d \<noteq> ''__proto__''
             \<longrightarrow> (\<exists>k \<in> set (map fst (props ?cat)). lowerCaseCompare k (type d) = 0)"
      using cover self by auto
    from i c1 c2 c3 show ?thesis by blast
  qed
next
  case (Some k0)
  note ex = insertResource_existing [OF Some]
  let ?cat = "cat\<lparr>props := pushOwn (props cat) k0 (apiVersion r)\<rparr>"
  have c1: "caseDistinct (props ?cat)" using inv by (simp add: pushOwn_caseDistinct)
  from ex(2) obtain vs0 where k0: "(k0, vs0) \<in> set (props cat)" by auto
  have c2: "\<forall>(k, vs) \<in> set (props ?cat).
             k \<noteq> ''__proto__'' \<and> (\<exists>d \<in> set (ds @ [r]). type d = k) \<and> vs = keptOf k (ds @ [r])"
  proof (clarify)
    fix k vs' assume "(k, vs') \<in> set (props ?cat)"
    then obtain vs where m: "(k, vs) \<in> set (props cat)"
        and v: "vs' = (if k = k0 then vs @ [apiVersion r] else vs)"
      using pushOwn_mem [of k vs' "props cat" k0 "apiVersion r"] by auto
    from m vers have kp: "k \<noteq> ''__proto__''" and vo: "vs = keptOf k ds" by blast+
    from m vers obtain d where d: "d \<in> set ds" "type d = k" by blast
    have kv: "vs' = keptOf k (ds @ [r])"
    proof (cases "k = k0")
      case True
      have "lowerCaseCompare k (type d) = 0" using d(2) by (simp add: lowerCaseCompare_def)
      from keptOf_snoc_started [OF _ d(1) this] ex(3) True d(2) kp
      have "keptOf k (ds @ [r]) = keptOf k ds @ [apiVersion r]" by simp
      with v vo True show ?thesis by simp
    next
      case False
      have "lowerCaseCompare k (type r) \<noteq> 0"
      proof
        assume "lowerCaseCompare k (type r) = 0"
        with ex(3) have "toLowerCase k = toLowerCase k0" by (simp add: lowerCaseCompare_zero)
        from caseDistinct_keys [OF inv m k0 this] False show False by simp
      qed
      with False v vo show ?thesis by (simp add: keptOf_snoc_other)
    qed
    from kp d kv
    show "k \<noteq> ''__proto__'' \<and> (\<exists>d \<in> set (ds @ [r]). type d = k) \<and> vs' = keptOf k (ds @ [r])"
      by auto
  qed
  have c3: "\<forall>d \<in> set (ds @ [r]). type d \<noteq> ''__proto__''
             \<longrightarrow> (\<exists>k \<in> set (map fst (props ?cat)). lowerCaseCompare k (type d) = 0)"
    using cover ex(2,3) by (auto simp: pushOwn_keys)
  from ex(1) c1 c2 c3 show ?thesis by blast
qed

lemma insertResources_invariant:
  "\<exists>cat. insertResources emptyCatalog ds = Inr cat
     \<and> caseDistinct (props cat)
     \<and> (\<forall>(k, vs) \<in> set (props cat).
           k \<noteq> ''__proto__'' \<and> (\<exists>d \<in> set ds. type d = k) \<and> vs = keptOf k ds)
     \<and> (\<forall>d \<in> set ds. type d \<noteq> ''__proto__''
           \<longrightarrow> (\<exists>k \<in> set (map fst (props cat)). lowerCaseCompare k (type d) = 0))"
proof (induction ds rule: rev_induct)
  case Nil
  show ?case by (simp add: emptyCatalog_def caseDistinct_def)
next
  case (snoc r ds)
  then obtain cat where c: "insertResources emptyCatalog ds = Inr cat"
    and i: "caseDistinct (props cat)"
      "\<forall>(k, vs) \<in> set (props cat).
           k \<noteq> ''__proto__'' \<and> (\<exists>d \<in> set ds. type d = k) \<and> vs = keptOf k ds"
      "\<forall>d \<in> set ds. type d \<noteq> ''__proto__''
           \<longrightarrow> (\<exists>k \<in> set (map fst (props cat)). lowerCaseCompare k (type d) = 0)"
    by blast
  from c have "insertResources emptyCatalog (ds @ [r]) = insertResource cat r"
    by (simp add: insertResources_snoc bindE_def)
  with insertResource_step [OF i, of r] show ?case by simp
qed

lemma keptOf_versionsOf:
  assumes "\<forall>d \<in> set ds. lowerCaseCompare k (type d) = 0 \<longrightarrow> type d \<noteq> ''__proto__''"
  shows "keptOf k ds = versionsOf k ds"
proof -
  let ?F = "filter (\<lambda>d. lowerCaseCompare k (type d) = 0) ds"
  from assms have "\<forall>d \<in> set ?F. \<not> type d = ''__proto__''" by simp
  then have "dropWhile (\<lambda>d. type d = ''__proto__'') ?F = ?F"
    by (cases ?F) auto
  then show ?thesis by (simp add: keptOf_def versionsOf_def)
qed

lemma toLowerCase_proto: "toLowerCase ''__proto__'' = ''__proto__''"
  by (simp add: toLowerCase_def toLowerChar_def)

definition fourDescriptors :: "(string, string) resource list" where
  "fourDescriptors = [\<lparr>apiVersion = ''v1'', type = ''A/b''\<rparr>, \<lparr>apiVersion = ''v2'', type = ''a/b''\<rparr>,
                      \<lparr>apiVersion = ''v9'', type = ''C''\<rparr>, \<lparr>apiVersion = ''v1'', type = ''a/B''\<rparr>]"

lemmas catalog_eval =
  insertResource_def setKey_def pushVersion_def pushOwn_def emptyCatalog_def bindE_def
  lowerCaseCompare_def toLowerCase_def toLowerChar_def

text \<open>
  A descriptor of type \<^verbatim>\<open>__proto__\<close> that matches no key creates none: its version goes
  to the array that becomes the prototype, and a later case variant starts a key of its
  own.
\<close>

lemma insertResources_proto_example:
  "insertResources emptyCatalog
     [\<lparr>apiVersion = ''v1'', type = ''__proto__''\<rparr>, \<lparr>apiVersion = ''v2'', type = ''__PROTO__''\<rparr>]
   = Inr \<lparr>props = [(''__PROTO__'', [''v2''])], proto = Some [''v1'']\<rparr>"
  by (simp add: catalog_eval)



text \<open>
  Claim C6 as stated has the versions of a type free of duplicates. The catalog holds an
  array per type and \<^verbatim>\<open>push\<close> adds to it unconditionally: two descriptors with the
  same type (up to case) and the same version leave the version twice.
\<close>

theorem insertResources_duplicate_counterexample:
  "insertResources emptyCatalog
       [\<lparr>apiVersion = ''v1'', type = ''A/b''\<rparr>, \<lparr>apiVersion = ''v1'', type = ''A/b''\<rparr>]
     = Inr \<lparr>props = [(''A/b'', [''v1'', ''v1''])], proto = None\<rparr>
   \<and> insertResources emptyCatalog
       [\<lparr>apiVersion = ''v1'', type = ''A/b''\<rparr>, \<lparr>apiVersion = ''v1'', type = ''a/B''\<rparr>]
     = Inr \<lparr>props = [(''A/b'', [''v1'', ''v1''])], proto = None\<rparr>
   \<and> \<not> distinct [''v1'', ''v1'']"
  by (simp add: catalog_eval)

text \<open>
  Claim C6, as amended. Any sequence of insertions into the empty catalog goes through,
  and afterwards: no two keys are equal up to case; every inserted descriptor whose type
  is not \<^verbatim>\<open>__proto__\<close> has a key that matches its type; and the collection of a key
  holds the version of every inserted descriptor whose type matches the key
  case-insensitively, in insertion order, once per insertion (duplicates are kept). The
  last holds of every key when no inserted type is \<^verbatim>\<open>__proto__\<close>, and in any case of
  every key that is not \<^verbatim>\<open>__proto__\<close> up to case.
\<close>

theorem insertResources_versions:
  "\<exists>cat. insertResources emptyCatalog ds = Inr cat
     \<and> caseDistinct (props cat)
     \<and> (\<forall>d \<in> set ds. type d \<noteq> ''__proto__''
           \<longrightarrow> (\<exists>k \<in> set (map fst (props cat)). lowerCaseCompare k (type d) = 0))
     \<and> (\<forall>(k, vs) \<in> set (props cat). toLowerCase k \<noteq> ''__proto__''
           \<longrightarrow> vs = map apiVersion (filter (\<lambda>d. lowerCaseCompare k (type d) = 0) ds))
     \<and> ((\<forall>d \<in> set ds. type d \<noteq> ''__proto__'')
           \<longrightarrow> (\<forall>(k, vs) \<in> set (props cat).
                  vs = map apiVersion (filter (\<lambda>d. lowerCaseCompare k (type d) = 0) ds)))"
proof -
  from insertResources_invariant [of ds] obtain cat where
    c: "insertResources emptyCatalog ds = Inr cat"
    and i1: "caseDistinct (props cat)"
    and i2: "\<forall>(k, vs) \<in> set (props cat).
           k \<noteq> ''__proto__'' \<and> (\<exists>d \<in> set ds. type d = k) \<and> vs = keptOf k ds"
    and i3: "\<forall>d \<in> set ds. type d \<noteq> ''__proto__''
           \<longrightarrow> (\<exists>k \<in> set (map fst (props cat)). lowerCaseCompare k (type d) = 0)"
    by blast
  have a: "\<forall>(k, vs) \<in> set (props cat). toLowerCase k \<noteq> ''__proto__''
           \<longrightarrow> vs = map apiVersion (filter (\<lambda>d. lowerCaseCompare k (type d) = 0) ds)"
  proof (clarify)
    fix k vs assume m: "(k, vs) \<in> set (props cat)" and l: "toLowerCase k \<noteq> ''__proto__''"
    have "\<forall>d \<in> set ds. lowerCaseCompare k (type d) = 0 \<longrightarrow> type d \<noteq> ''__proto__''"
      using l toLowerCase_proto by (auto simp: lowerCaseCompare_zero)
    then have "keptOf k ds = versionsOf k ds" by (rule keptOf_versionsOf)
    with m i2 show "vs = map apiVersion (filter (\<lambda>d. lowerCaseCompare k (type d) = 0) ds)"
      by (auto simp: versionsOf_def)
  qed
  have b: "\<forall>(k, vs) \<in> set (props cat).
                  vs = map apiVersion (filter (\<lambda>d. lowerCaseCompare k (type d) = 0) ds)"
    if np: "\<forall>d \<in> set ds. type d \<noteq> ''__proto__''"
  proof (clarify)
    fix k vs assume m: "(k, vs) \<in> set (props cat)"
    from np have "keptOf k ds = versionsOf k ds" by (intro keptOf_versionsOf) blast
    with m i2 show "vs = map apiVersion (filter (\<lambda>d. lowerCaseCompare k (type d) = 0) ds)"
      by (auto simp: versionsOf_def)
  qed
  from c i1 i3 a b show ?thesis by blast
qed

theorem insertResources_versions_witness:
  "insertResources emptyCatalog fourDescriptors
     = Inr \<lparr>props = [(''A/b'', [''v1'', ''v2'', ''v1'']), (''C'', [''v9''])], proto = None\<rparr>
   \<and> ''__proto__'' \<notin> set (map type fourDescriptors)
   \<and> toLowerCase ''A/b'' \<noteq> ''__proto__''
   \<and> caseDistinct [(''A/b'', [''v1'', ''v2'', ''v1'']), (''C'', [''v9''])]
   \<and> [''v1'', ''v2'', ''v1'']
       = map apiVersion (filter (\<lambda>d. lowerCaseCompare ''A/b'' (type d) = 0) fourDescriptors)
   \<and> [''v9''] = map apiVersion (filter (\<lambda>d. lowerCaseCompare ''C'' (type d) = 0) fourDescriptors)"
proof -
  have e: "insertResources emptyCatalog fourDescriptors
     = Inr \<lparr>props = [(''A/b'', [''v1'', ''v2'', ''v1'']), (''C'', [''v9''])], proto = None\<rparr>"
    by (simp add: catalog_eval fourDescriptors_def)
  have n: "\<forall>d \<in> set fourDescriptors. type d \<noteq> ''__proto__''"
    by (simp add: fourDescriptors_def)
  have l: "toLowerCase ''A/b'' \<noteq> ''__proto__''"
    by (simp add: toLowerCase_def toLowerChar_def)
  from insertResources_versions [of fourDescriptors] e n
  have v: "caseDistinct [(''A/b'', [''v1'', ''v2'', ''v1'']), (''C'', [''v9''])]"
    "\<forall>(k, vs) \<in> set [(''A/b'', [''v1'', ''v2'', ''v1'']), (''C'', [''v9''])].
        vs = map apiVersion (filter (\<lambda>d. lowerCaseCompare k (type d) = 0) fourDescriptors)"
    by auto
  from n have "''__proto__'' \<notin> set (map type fourDescriptors)" by auto
  with e l v show ?thesis by simp
qed

section \<open>Batch Orchestrator\<close>

subsection \<open>Data\<close>

text \<open>
  A generation entry (\<^verbatim>\<open>AutoGenConfig\<close>), with the fields the orchestrators read.
  \<^verbatim>\<open>readmeFile\<close> and \<^verbatim>\<open>disabledForAutogen\<close> are optional in the source.
\<close>

record entry =
  basePath :: string
  namespace :: string
  readmeFile :: "string option"
  disabledForAutogen :: "bool option"

datatype outcome = Succeeded | Failed

text \<open>A package record \<^verbatim>\<open>{ path, packageName, result }\<close>.\<close>

record package =
  path :: "string list"
  packageName :: string
  result :: outcome

text \<open>
  The three blocks that \<^verbatim>\<open>logOut(summaryLogger, ...)\<close> writes, with the values their
  templates interpolate: the success block names the base path of the outer loop, the
  entry failure block the entry's base path, its namespace and the error, the base-path
  failure block the base path and the error.
\<close>

datatype log_block =
    GeneratedBlock string
  | EntryFailedBlock string string error
  | BasePathFailedBlock string error

text \<open>
  The collaborators are not part of the code under study; they are parameters. Each one
  reads and changes the world outside the orchestrator (the specs checkout, the schema
  files, the autogen list), of an arbitrary type \<open>'w\<close>, and either returns or throws.
  \<open>'c\<close> is the type of the generated schema configurations, opaque here.
  \<open>findOrGenerateAutogenEntriesByReadme\<close> is \<^verbatim>\<open>findOrGenerateAutogenEntries\<close> as
  single-surface generation calls it, with the readme path as second argument.
  \<open>cloneAndGenerateBasePaths\<close> is called with \<^verbatim>\<open>constants.specsRepoUri\<close> and
  \<^verbatim>\<open>constants.specsRepoCommitHash\<close>, which are part of the parameter.
\<close>

record ('w, 'c) collaborators =
  specsRepoPath :: string
  cloneAndGenerateBasePaths :: "string \<Rightarrow> 'w \<Rightarrow> (error + string list) \<times> 'w"
  resolveAbsolutePath :: "string \<Rightarrow> 'w \<Rightarrow> (error + string) \<times> 'w"
  validateAndReturnReadmePath :: "string \<Rightarrow> string \<Rightarrow> 'w \<Rightarrow> (error + string) \<times> 'w"
  getApiVersionsByNamespace :: "string \<Rightarrow> 'w \<Rightarrow> (error + (string \<times> string list) list) \<times> 'w"
  findOrGenerateAutogenEntries :: "string \<Rightarrow> string list \<Rightarrow> 'w \<Rightarrow> (error + entry list) \<times> 'w"
  findOrGenerateAutogenEntriesByReadme :: "string \<Rightarrow> string \<Rightarrow> 'w \<Rightarrow> (error + entry list) \<times> 'w"
  clearAutoGeneratedSchemaRefs :: "entry list \<Rightarrow> 'w \<Rightarrow> (error + unit) \<times> 'w"
  getPackageString :: "string \<Rightarrow> 'w \<Rightarrow> (error + string) \<times> 'w"
  generateSchemas :: "string \<Rightarrow> entry \<Rightarrow> 'w \<Rightarrow> (error + 'c list) \<times> 'w"
  saveAutoGeneratedSchemaRefs :: "'c list \<Rightarrow> 'w \<Rightarrow> (error + unit) \<times> 'w"

text \<open>
  The state of a run: the world, the accumulators \<^verbatim>\<open>schemaConfigs\<close> and
  \<^verbatim>\<open>packages\<close>, the summary log, and two traces kept for the claims about what is
  attempted and what is persisted: the arguments of every call of
  \<^verbatim>\<open>generateSchemas\<close> and of every call of \<^verbatim>\<open>saveAutoGeneratedSchemaRefs\<close>.
\<close>

record ('w, 'c) run_state =
  world :: 'w
  schemaConfigs :: "'c list"
  packages :: "package list"
  summaryLog :: "log_block list"
  generated :: "(string \<times> entry) list"
  saved :: "'c list list"

subsection \<open>Steps that change the state and may throw\<close>

type_synonym ('a, 's) step = "'s \<Rightarrow> (error + 'a) \<times> 's"

definition returnM :: "'a \<Rightarrow> ('a, 's) step" where
  "returnM x s = (Inr x, s)"

definition throwM :: "error \<Rightarrow> ('a, 's) step" where
  "throwM e s = (Inl e, s)"

definition bindM :: "('a, 's) step \<Rightarrow> ('a \<Rightarrow> ('b, 's) step) \<Rightarrow> ('b, 's) step" where
  "bindM m f s = (case m s of (Inl e, s') \<Rightarrow> (Inl e, s') | (Inr x, s') \<Rightarrow> f x s')"

text \<open>\<^verbatim>\<open>try { m } catch (error) { h(error) }\<close>: what \<open>m\<close> did to the state stays done.\<close>

definition tryCatch :: "('a, 's) step \<Rightarrow> (error \<Rightarrow> ('a, 's) step) \<Rightarrow> ('a, 's) step" where
  "tryCatch m h s = (case m s of (Inl e, s') \<Rightarrow> h e s' | (Inr x, s') \<Rightarrow> (Inr x, s'))"

text \<open>A call of a collaborator.\<close>

definition call :: "('w \<Rightarrow> (error + 'a) \<times> 'w) \<Rightarrow> ('a, ('w, 'c) run_state) step" where
  "call f s = (case f (world s) of (r, w) \<Rightarrow> (r, s\<lparr>world := w\<rparr>))"

text \<open>A call of the generation routine, entered in the trace.\<close>

definition callGenerate ::
  "('w, 'c) collaborators \<Rightarrow> string \<Rightarrow> entry \<Rightarrow> ('c list, ('w, 'c) run_state) step" where
  "callGenerate c readme autoGenConfig s =
     call (generateSchemas c readme autoGenConfig)
       (s\<lparr>generated := generated s @ [(readme, autoGenConfig)]\<rparr>)"

definition callSave ::
  "('w, 'c) collaborators \<Rightarrow> 'c list \<Rightarrow> (unit, ('w, 'c) run_state) step" where
  "callSave c configs s =
     call (saveAutoGeneratedSchemaRefs c configs) (s\<lparr>saved := saved s @ [configs]\<rparr>)"

definition logOut :: "log_block \<Rightarrow> (unit, ('w, 'c) run_state) step" where
  "logOut block s = (Inr (), s\<lparr>summaryLog := summaryLog s @ [block]\<rparr>)"

subsection \<open>Full-batch generation: \<^verbatim>\<open>generateall.ts\<close>\<close>

text \<open>\<^verbatim>\<open>autoGenConfig.readmeFile || autoGenConfig.basePath\<close>: an empty string is falsy.\<close>

definition readmeOrBasePath :: "entry \<Rightarrow> string" where
  "readmeOrBasePath autoGenConfig =
     (case readmeFile autoGenConfig of
        None \<Rightarrow> basePath autoGenConfig
      | Some r \<Rightarrow> if r = [] then basePath autoGenConfig else r)"

text \<open>
  The body of the inner loop (lines 87 to 121):
  \<^verbatim>\<open>
      const pkg = { path: ['schemas'] } as Package;
      try {
          const readme = validateAndReturnReadmePath(localPath,
              autoGenConfig.readmeFile || autoGenConfig.basePath);
          pkg.packageName = getPackageString(readme);
          const newConfigs = await generateSchemas(readme, autoGenConfig);
          schemaConfigs.push(...newConfigs);
          pkg.result = 'succeeded';
          logOut(summaryLogger, `... Successfully generated types for base path '${basePath}'. ...`);
      } catch(error) {
          pkg.packageName = autoGenConfig.basePath;
          pkg.result = 'failed';
          logOut(summaryLogger, `... Failed to generate types for base path
              '${autoGenConfig.basePath}' and namespace '${autoGenConfig.namespace}' ... ${error} ...`);
      }
      packages.push(pkg);
  \<close>
  Writing to the console and to the log does not throw.
\<close>

definition tryGenerate ::
  "('w, 'c) collaborators \<Rightarrow> string \<Rightarrow> string \<Rightarrow> entry \<Rightarrow> (package, ('w, 'c) run_state) step" where
  "tryGenerate c localPath bp autoGenConfig =
     bindM (call (validateAndReturnReadmePath c localPath (readmeOrBasePath autoGenConfig)))
       (\<lambda>readme.
     bindM (call (getPackageString c readme)) (\<lambda>name.
     bindM (callGenerate c readme autoGenConfig) (\<lambda>newConfigs.
     bindM (\<lambda>s. (Inr (), s\<lparr>schemaConfigs := schemaConfigs s @ newConfigs\<rparr>)) (\<lambda>_.
     bindM (logOut (GeneratedBlock bp)) (\<lambda>_.
     returnM \<lparr>path = [''schemas''], packageName = name, result = Succeeded\<rparr>)))))"

definition generateEntry ::
  "('w, 'c) collaborators \<Rightarrow> string \<Rightarrow> string \<Rightarrow> entry \<Rightarrow> (unit, ('w, 'c) run_state) step" where
  "generateEntry c localPath bp autoGenConfig =
     bindM (tryCatch (tryGenerate c localPath bp autoGenConfig)
              (\<lambda>error.
                 bindM (logOut (EntryFailedBlock (basePath autoGenConfig)
                                  (namespace autoGenConfig) error)) (\<lambda>_.
                 returnM \<lparr>path = [''schemas''], packageName = basePath autoGenConfig,
                          result = Failed\<rparr>)))
       (\<lambda>pkg s. (Inr (), s\<lparr>packages := packages s @ [pkg]\<rparr>))"

text \<open>\<^verbatim>\<open>for (const autoGenConfig of filteredAutoGenList) { ... }\<close>\<close>

fun generateEntries ::
  "('w, 'c) collaborators \<Rightarrow> string \<Rightarrow> string \<Rightarrow> entry list \<Rightarrow> (unit, ('w, 'c) run_state) step" where
  "generateEntries c localPath bp [] = returnM ()"
| "generateEntries c localPath bp (autoGenConfig # rest) =
     bindM (generateEntry c localPath bp autoGenConfig)
       (\<lambda>_. generateEntries c localPath bp rest)"

text \<open>
  The filter applied when \<^verbatim>\<open>--readme-files\<close> is given (lines 72 to 82): an entry is kept
  when a listed file starts with \<^verbatim>\<open>'specification/' + c.basePath\<close>, and the first such
  file becomes its \<^verbatim>\<open>readmeFile\<close>.
\<close>

definition matchReadmeFile :: "string list \<Rightarrow> entry \<Rightarrow> entry option" where
  "matchReadmeFile readmeFiles c =
     (case find (\<lambda>f. startsWith f (''specification/'' @ basePath c)) readmeFiles of
        None \<Rightarrow> None
      | Some r \<Rightarrow> if r = [] then None else Some (c\<lparr>readmeFile := Some r\<rparr>))"

definition filterReadmeFiles :: "string list option \<Rightarrow> entry list \<Rightarrow> entry list" where
  "filterReadmeFiles readmeFilesArg filteredAutoGenList =
     (case readmeFilesArg of
        None \<Rightarrow> filteredAutoGenList
      | Some readmeFiles \<Rightarrow> List.map_filter (matchReadmeFile readmeFiles) filteredAutoGenList)"

text \<open>The body of the outer loop (lines 66 to 134): the outer \<^verbatim>\<open>try\<close> and its handler.\<close>

definition tryBasePath ::
  "('w, 'c) collaborators \<Rightarrow> string list option \<Rightarrow> string \<Rightarrow> string
     \<Rightarrow> (unit, ('w, 'c) run_state) step" where
  "tryBasePath c readmeFilesArg localPath bp =
     bindM (call (validateAndReturnReadmePath c localPath bp)) (\<lambda>readme.
     bindM (call (getApiVersionsByNamespace c readme)) (\<lambda>versions.
     bindM (call (findOrGenerateAutogenEntries c bp (map fst versions))) (\<lambda>autoGenList.
       let filteredAutoGenList =
             filterReadmeFiles readmeFilesArg
               (filter (\<lambda>x. disabledForAutogen x \<noteq> Some True) autoGenList)
       in bindM (call (clearAutoGeneratedSchemaRefs c filteredAutoGenList)) (\<lambda>_.
          generateEntries c localPath bp filteredAutoGenList))))"

definition processBasePath ::
  "('w, 'c) collaborators \<Rightarrow> string list option \<Rightarrow> string \<Rightarrow> string
     \<Rightarrow> (unit, ('w, 'c) run_state) step" where
  "processBasePath c readmeFilesArg localPath bp =
     tryCatch (tryBasePath c readmeFilesArg localPath bp)
       (\<lambda>error. logOut (BasePathFailedBlock bp error))"

text \<open>\<^verbatim>\<open>for (const basePath of basePaths) { ... }\<close>\<close>

fun processBasePaths ::
  "('w, 'c) collaborators \<Rightarrow> string list option \<Rightarrow> string \<Rightarrow> string list
     \<Rightarrow> (unit, ('w, 'c) run_state) step" where
  "processBasePaths c readmeFilesArg localPath [] = returnM ()"
| "processBasePaths c readmeFilesArg localPath (bp # rest) =
     bindM (processBasePath c readmeFilesArg localPath bp)
       (\<lambda>_. processBasePaths c readmeFilesArg localPath rest)"

subsection \<open>Single-surface generation\<close>

text \<open>
  \<^verbatim>\<open>
      for (const autoGenConfig of autoGenEntries) {
          if (autoGenConfig.disabledForAutogen === true) {
              ...
              continue;
          }
          ...
          const localSchemaConfigs = await generateSchemas(readme, autoGenConfig);
          schemaConfigs.push(...localSchemaConfigs);
      }
  \<close>
  \<^verbatim>\<open>schemaConfigs\<close> is a local array here; the loop carries it.
\<close>

fun singleEntries ::
  "('w, 'c) collaborators \<Rightarrow> string \<Rightarrow> entry list \<Rightarrow> 'c list
     \<Rightarrow> ('c list, ('w, 'c) run_state) step" where
  "singleEntries c readme [] configs = returnM configs"
| "singleEntries c readme (autoGenConfig # rest) configs =
     (if disabledForAutogen autoGenConfig = Some True
      then singleEntries c readme rest configs
      else bindM (callGenerate c readme autoGenConfig) (\<lambda>localSchemaConfigs.
             singleEntries c readme rest (configs @ localSchemaConfigs)))"

text \<open>
  \<^verbatim>\<open>
      let localPath = args['local-path'];
      if (!localPath) {
          localPath = constants.specsRepoPath;
          await cloneAndGenerateBasePaths(localPath, constants.specsRepoUri,
              constants.specsRepoCommitHash);
      } else {
          localPath = await resolveAbsolutePath(localPath);
      }
  \<close>
\<close>

definition resolveLocalPath ::
  "('w, 'c) collaborators \<Rightarrow> string option \<Rightarrow> (string, ('w, 'c) run_state) step" where
  "resolveLocalPath c localPathArg =
     (case localPathArg of
        Some p \<Rightarrow>
          if p = [] then bindM (call (cloneAndGenerateBasePaths c (specsRepoPath c)))
                           (\<lambda>_. returnM (specsRepoPath c))
          else call (resolveAbsolutePath c p)
      | None \<Rightarrow> bindM (call (cloneAndGenerateBasePaths c (specsRepoPath c)))
                  (\<lambda>_. returnM (specsRepoPath c)))"

text \<open>The whole callback of single-surface generation.\<close>

definition generateSingle ::
  "('w, 'c) collaborators \<Rightarrow> string \<Rightarrow> string option \<Rightarrow> (unit, ('w, 'c) run_state) step" where
  "generateSingle c bp localPathArg =
     bindM (resolveLocalPath c localPathArg) (\<lambda>localPath.
     bindM (tryCatch (call (validateAndReturnReadmePath c localPath bp))
              (\<lambda>_. throwM (ReadmeNotFound localPath bp))) (\<lambda>readme.
     bindM (call (findOrGenerateAutogenEntriesByReadme c bp readme)) (\<lambda>autoGenEntries.
     bindM (singleEntries c readme autoGenEntries []) (\<lambda>schemaConfigs.
     callSave c schemaConfigs))))"


subsection \<open>What the records of a batch are to be\<close>

text \<open>
  The package record an entry is to get, read off the collaborators in the world the
  entry is attempted in: \<open>failed\<close>, under the entry's base path, when resolving its
  entry-point document, naming its package or generating throws; \<open>succeeded\<close>, under the
  package identifier found, otherwise.
\<close>

definition failedPackage :: "entry \<Rightarrow> package" where
  "failedPackage e = \<lparr>path = [''schemas''], packageName = basePath e, result = Failed\<rparr>"

definition succeededPackage :: "string \<Rightarrow> package" where
  "succeededPackage name = \<lparr>path = [''schemas''], packageName = name, result = Succeeded\<rparr>"

definition expectedPackage :: "('w, 'c) collaborators \<Rightarrow> string \<Rightarrow> entry \<Rightarrow> 'w \<Rightarrow> package" where
  "expectedPackage c localPath e w =
     (case validateAndReturnReadmePath c localPath (readmeOrBasePath e) w of
        (Inl err, w1) \<Rightarrow> failedPackage e
      | (Inr readme, w1) \<Rightarrow>
          (case getPackageString c readme w1 of
             (Inl err, w2) \<Rightarrow> failedPackage e
           | (Inr name, w2) \<Rightarrow>
               (case generateSchemas c readme e w2 of
                  (Inl err, w3) \<Rightarrow> failedPackage e
                | (Inr configs, w3) \<Rightarrow> succeededPackage name)))"

text \<open>
  The call of the generation routine that the attempt of an entry makes: none when its
  entry-point document or its package identifier is not found, one otherwise.
\<close>

definition attemptedGeneration ::
  "('w, 'c) collaborators \<Rightarrow> string \<Rightarrow> entry \<Rightarrow> 'w \<Rightarrow> (string \<times> entry) list" where
  "attemptedGeneration c localPath e w =
     (case validateAndReturnReadmePath c localPath (readmeOrBasePath e) w of
        (Inl err, w1) \<Rightarrow> []
      | (Inr readme, w1) \<Rightarrow>
          (case getPackageString c readme w1 of
             (Inl err, w2) \<Rightarrow> []
           | (Inr name, w2) \<Rightarrow> [(readme, e)]))"

subsection \<open>Collaborators for the examples\<close>

definition demoEntry :: "string \<Rightarrow> string \<Rightarrow> bool option \<Rightarrow> entry" where
  "demoEntry bp ns off =
     \<lparr>basePath = bp, namespace = ns, readmeFile = None, disabledForAutogen = off\<rparr>"

definition demoCollaborators :: "(nat, string) collaborators" where
  "demoCollaborators =
     \<lparr>specsRepoPath = ''specs'',
      cloneAndGenerateBasePaths = (\<lambda>p w. (Inr [''svcA'', ''svcB''], Suc w)),
      resolveAbsolutePath = (\<lambda>p w. (Inr p, w)),
      validateAndReturnReadmePath = (\<lambda>lp bp w.
         if bp = ''missing'' then (Inl (External ''no readme''), w)
         else (Inr (bp @ ''/readme.md''), w)),
      getApiVersionsByNamespace = (\<lambda>readme w. (Inr [(''Demo'', [''2020-01-01''])], w)),
      findOrGenerateAutogenEntries = (\<lambda>bp ns w.
         (Inr [demoEntry bp ''First'' None, demoEntry bp ''Bad'' (Some False),
               demoEntry bp ''Off'' (Some True), demoEntry bp ''Third'' None], w)),
      findOrGenerateAutogenEntriesByReadme = (\<lambda>bp readme w.
         (Inr [demoEntry bp ''First'' None, demoEntry bp ''Off'' (Some True),
               demoEntry bp ''Bad'' None, demoEntry bp ''Third'' None], w)),
      clearAutoGeneratedSchemaRefs = (\<lambda>es w. (Inr (), w)),
      getPackageString = (\<lambda>readme w. (Inr (''pkg:'' @ readme), w)),
      generateSchemas = (\<lambda>readme e w.
         if namespace e = ''Bad'' then (Inl (External ''boom''), Suc w)
         else (Inr [namespace e], Suc w)),
      saveAutoGeneratedSchemaRefs = (\<lambda>configs w. (Inr (), Suc w))\<rparr>"

definition emptyRun :: "(nat, string) run_state" where
  "emptyRun = \<lparr>world = 0, schemaConfigs = [], packages = [], summaryLog = [],
               generated = [], saved = []\<rparr>"

definition threeEntries :: "entry list" where
  "threeEntries = [demoEntry ''svcA'' ''First'' None, demoEntry ''svcA'' ''Bad'' None,
                   demoEntry ''svcA'' ''Third'' None]"


subsection \<open>Facts about the inner loop\<close>

lemma tryGenerate_packages:
  "packages (snd (tryGenerate c localPath bp e s)) = packages s"
  by (simp add: tryGenerate_def bindM_def call_def callGenerate_def logOut_def returnM_def
      split: prod.splits sum.splits)

lemma generateEntry_effect:
  "fst (generateEntry c localPath bp e s) = Inr ()
   \<and> packages (snd (generateEntry c localPath bp e s))
       = packages s @ [expectedPackage c localPath e (world s)]
   \<and> generated (snd (generateEntry c localPath bp e s))
       = generated s @ attemptedGeneration c localPath e (world s)"
  by (simp add: generateEntry_def tryGenerate_def tryCatch_def bindM_def call_def
      callGenerate_def logOut_def returnM_def expectedPackage_def attemptedGeneration_def
      failedPackage_def succeededPackage_def
      split: prod.splits sum.splits)

lemma generateEntries_Cons:
  "generateEntries c localPath bp (e # es) s
     = generateEntries c localPath bp es (snd (generateEntry c localPath bp e s))"
proof -
  obtain r s1 where g: "generateEntry c localPath bp e s = (r, s1)"
    by (cases "generateEntry c localPath bp e s")
  with generateEntry_effect [of c localPath bp e s] have "r = Inr ()" by simp
  with g show ?thesis by (simp add: bindM_def)
qed

lemma generateEntries_returns: "fst (generateEntries c localPath bp es s) = Inr ()"
proof (induction es arbitrary: s)
  case Nil
  show ?case by (simp add: returnM_def)
next
  case (Cons e es)
  show ?case by (simp only: generateEntries_Cons Cons.IH)
qed

lemma generateEntries_records:
  "\<exists>recs. packages (snd (generateEntries c localPath bp es s)) = packages s @ recs
        \<and> length recs = length es
        \<and> (\<forall>i < length es. recs ! i
             = expectedPackage c localPath (es ! i)
                 (world (snd (generateEntries c localPath bp (take i es) s))))"
proof (induction es arbitrary: s)
  case Nil
  show ?case by (simp add: returnM_def)
next
  case (Cons e es)
  define s1 where "s1 = snd (generateEntry c localPath bp e s)"
  from Cons.IH [of s1] obtain recs where
    r: "packages (snd (generateEntries c localPath bp es s1)) = packages s1 @ recs"
       "length recs = length es"
       "\<forall>i < length es. recs ! i
             = expectedPackage c localPath (es ! i)
                 (world (snd (generateEntries c localPath bp (take i es) s1)))"
    by blast
  have p1: "packages s1 = packages s @ [expectedPackage c localPath e (world s)]"
    using generateEntry_effect [of c localPath bp e s] by (simp add: s1_def)
  let ?recs = "expectedPackage c localPath e (world s) # recs"
  have a: "packages (snd (generateEntries c localPath bp (e # es) s)) = packages s @ ?recs"
    using r(1) p1 by (simp only: generateEntries_Cons s1_def [symmetric]) simp
  have b: "length ?recs = length (e # es)" using r(2) by simp
  have d: "?recs ! i = expectedPackage c localPath ((e # es) ! i)
                 (world (snd (generateEntries c localPath bp (take i (e # es)) s)))"
    if "i < length (e # es)" for i
  proof (cases i)
    case 0
    then show ?thesis by (simp add: returnM_def)
  next
    case (Suc j)
    with that have "j < length es" by simp
    with r(3) Suc show ?thesis
      by (simp only: nth_Cons_Suc take_Suc_Cons generateEntries_Cons s1_def [symmetric])
  qed
  from a b d show ?case by blast
qed

lemma generateEntries_attempts:
  "i < length es \<Longrightarrow>
   generated (snd (generateEntries c localPath bp (take (Suc i) es) s))
     = generated (snd (generateEntries c localPath bp (take i es) s))
       @ attemptedGeneration c localPath (es ! i)
           (world (snd (generateEntries c localPath bp (take i es) s)))"
proof (induction es arbitrary: s i)
  case Nil
  then show ?case by simp
next
  case (Cons e es)
  show ?case
  proof (cases i)
    case 0
    then show ?thesis
      using generateEntry_effect [of c localPath bp e s]
      by (simp add: generateEntries_Cons del: generateEntries.simps) (simp add: returnM_def)
  next
    case (Suc j)
    with Cons.prems have "j < length es" by simp
    from Cons.IH [OF this, of "snd (generateEntry c localPath bp e s)"] Suc show ?thesis
      by (simp only: nth_Cons_Suc take_Suc_Cons generateEntries_Cons)
  qed
qed


lemma expectedPackage_failed:
  "result (expectedPackage c localPath e w) = Failed \<Longrightarrow>
   packageName (expectedPackage c localPath e w) = basePath e"
  by (auto simp: expectedPackage_def failedPackage_def succeededPackage_def
      split: prod.splits sum.splits)

lemma demo_three_run:
  "fst (generateEntries demoCollaborators ''specs'' ''svcA'' threeEntries emptyRun) = Inr ()"
  "packages (snd (generateEntries demoCollaborators ''specs'' ''svcA'' threeEntries emptyRun))
     = [succeededPackage ''pkg:svcA/readme.md'', failedPackage (demoEntry ''svcA'' ''Bad'' None),
        succeededPackage ''pkg:svcA/readme.md'']"
  "map snd (generated (snd (generateEntries demoCollaborators ''specs'' ''svcA'' threeEntries
      emptyRun))) = threeEntries"
  by (simp_all add: generateEntry_def tryGenerate_def tryCatch_def bindM_def call_def
      callGenerate_def logOut_def returnM_def demoCollaborators_def demoEntry_def
      threeEntries_def emptyRun_def readmeOrBasePath_def failedPackage_def
      succeededPackage_def)

text \<open>
  Claim C1. The inner loop of full-batch generation, run over any list of surviving
  entries, never throws; it appends exactly one package record per entry, in processing
  order; the record of an entry is the one its own attempt calls for, in the world the
  loop has reached when the entry's turn comes (\<open>failed\<close> and keyed by the entry's base
  path when the attempt throws, \<open>succeeded\<close> and keyed by the package identifier
  otherwise); and the attempt of every entry is made, whatever happened to the entries
  before it.
\<close>

theorem generateEntries_isolation:
  "fst (generateEntries c localPath bp es s) = Inr ()
   \<and> (\<exists>recs. packages (snd (generateEntries c localPath bp es s)) = packages s @ recs
         \<and> length recs = length es
         \<and> (\<forall>i < length es.
               recs ! i = expectedPackage c localPath (es ! i)
                            (world (snd (generateEntries c localPath bp (take i es) s)))
             \<and> (result (recs ! i) = Failed \<longrightarrow> packageName (recs ! i) = basePath (es ! i))))
   \<and> (\<forall>i < length es.
         generated (snd (generateEntries c localPath bp (take (Suc i) es) s))
           = generated (snd (generateEntries c localPath bp (take i es) s))
             @ attemptedGeneration c localPath (es ! i)
                 (world (snd (generateEntries c localPath bp (take i es) s))))"
proof -
  from generateEntries_records [of c localPath bp es s] obtain recs where
    r: "packages (snd (generateEntries c localPath bp es s)) = packages s @ recs"
       "length recs = length es"
       "\<forall>i < length es. recs ! i
             = expectedPackage c localPath (es ! i)
                 (world (snd (generateEntries c localPath bp (take i es) s)))"
    by blast
  from r(3) have "\<forall>i < length es.
               recs ! i = expectedPackage c localPath (es ! i)
                            (world (snd (generateEntries c localPath bp (take i es) s)))
             \<and> (result (recs ! i) = Failed \<longrightarrow> packageName (recs ! i) = basePath (es ! i))"
    using expectedPackage_failed by metis
  with r(1,2) generateEntries_returns [of c localPath bp es s] generateEntries_attempts
  show ?thesis by blast
qed

theorem generateEntries_isolation_witness:
  "fst (generateEntries demoCollaborators ''specs'' ''svcA'' threeEntries emptyRun) = Inr ()
   \<and> packages (snd (generateEntries demoCollaborators ''specs'' ''svcA'' threeEntries emptyRun))
       = [succeededPackage ''pkg:svcA/readme.md'', failedPackage (demoEntry ''svcA'' ''Bad'' None),
          succeededPackage ''pkg:svcA/readme.md'']
   \<and> map snd (generated (snd (generateEntries demoCollaborators ''specs'' ''svcA'' threeEntries
        emptyRun))) = threeEntries
   \<and> (\<exists>recs. packages (snd (generateEntries demoCollaborators ''specs'' ''svcA'' threeEntries
                  emptyRun)) = packages emptyRun @ recs
         \<and> length recs = length threeEntries)"
  using generateEntries_isolation [of demoCollaborators "''specs''" "''svcA''" threeEntries emptyRun]
    demo_three_run
  by blast

subsection \<open>Facts about the outer loop\<close>

text \<open>
  When the steps before the inner loop go through, the body of the outer loop is the inner
  loop over the surviving entries: the entries that are not disabled and, under
  \<^verbatim>\<open>--readme-files\<close>, match a listed file.
\<close>

lemma processBasePath_entries:
  assumes "validateAndReturnReadmePath c localPath bp (world s) = (Inr readme, w1)"
    and "getApiVersionsByNamespace c readme w1 = (Inr versions, w2)"
    and "findOrGenerateAutogenEntries c bp (map fst versions) w2 = (Inr autoGenList, w3)"
    and "clearAutoGeneratedSchemaRefs c
           (filterReadmeFiles readmeFilesArg
              (filter (\<lambda>x. disabledForAutogen x \<noteq> Some True) autoGenList)) w3 = (Inr (), w4)"
  shows "processBasePath c readmeFilesArg localPath bp s
           = generateEntries c localPath bp
               (filterReadmeFiles readmeFilesArg
                  (filter (\<lambda>x. disabledForAutogen x \<noteq> Some True) autoGenList))
               (s\<lparr>world := w4\<rparr>)"
proof -
  let ?es = "filterReadmeFiles readmeFilesArg
                  (filter (\<lambda>x. disabledForAutogen x \<noteq> Some True) autoGenList)"
  have t: "tryBasePath c readmeFilesArg localPath bp s
             = generateEntries c localPath bp ?es (s\<lparr>world := w4\<rparr>)"
    using assms by (simp add: tryBasePath_def bindM_def call_def Let_def)
  obtain r s' where g: "generateEntries c localPath bp ?es (s\<lparr>world := w4\<rparr>) = (r, s')"
    by (cases "generateEntries c localPath bp ?es (s\<lparr>world := w4\<rparr>)")
  with generateEntries_returns [of c localPath bp ?es "s\<lparr>world := w4\<rparr>"] have "r = Inr ()"
    by simp
  with t g show ?thesis by (simp add: processBasePath_def tryCatch_def)
qed

text \<open>
  Claim C3. When the entry-point document of a base path does not resolve, the body of
  the outer loop ends normally, having written one failure block for the base path and
  nothing else: no package record is added and no entry is attempted; the loop goes on
  with the next base path from there.
\<close>

theorem processBasePath_readme_failure:
  assumes "validateAndReturnReadmePath c localPath bp (world s) = (Inl err, w)"
  shows "processBasePath c readmeFilesArg localPath bp s
           = (Inr (), s\<lparr>world := w, summaryLog := summaryLog s @ [BasePathFailedBlock bp err]\<rparr>)
       \<and> packages (snd (processBasePath c readmeFilesArg localPath bp s)) = packages s
       \<and> generated (snd (processBasePath c readmeFilesArg localPath bp s)) = generated s
       \<and> processBasePaths c readmeFilesArg localPath (bp # rest) s
           = processBasePaths c readmeFilesArg localPath rest
               (s\<lparr>world := w, summaryLog := summaryLog s @ [BasePathFailedBlock bp err]\<rparr>)"
  using assms
  by (simp add: processBasePath_def tryBasePath_def tryCatch_def bindM_def call_def logOut_def)

theorem processBasePath_readme_failure_witness:
  "validateAndReturnReadmePath demoCollaborators ''specs'' ''missing'' (world emptyRun)
     = (Inl (External ''no readme''), 0)
   \<and> processBasePath demoCollaborators None ''specs'' ''missing'' emptyRun
       = (Inr (), emptyRun\<lparr>world := 0,
            summaryLog := summaryLog emptyRun @ [BasePathFailedBlock ''missing'' (External ''no readme'')]\<rparr>)
   \<and> packages (snd (processBasePath demoCollaborators None ''specs'' ''missing'' emptyRun)) = []
   \<and> processBasePaths demoCollaborators None ''specs'' [''missing'', ''svcA''] emptyRun
       = processBasePaths demoCollaborators None ''specs'' [''svcA'']
           (emptyRun\<lparr>world := 0,
              summaryLog := summaryLog emptyRun @ [BasePathFailedBlock ''missing'' (External ''no readme'')]\<rparr>)
   \<and> map packageName (packages (snd (processBasePaths demoCollaborators None ''specs''
         [''missing'', ''svcA''] emptyRun)))
       = [''pkg:svcA/readme.md'', ''svcA'', ''pkg:svcA/readme.md'']"
proof -
  have h: "validateAndReturnReadmePath demoCollaborators ''specs'' ''missing'' (world emptyRun)
     = (Inl (External ''no readme''), 0)"
    by (simp add: demoCollaborators_def emptyRun_def)
  have e: "packages emptyRun = []" by (simp add: emptyRun_def)
  have r: "map packageName (packages (snd (processBasePaths demoCollaborators None ''specs''
         [''missing'', ''svcA''] emptyRun)))
       = [''pkg:svcA/readme.md'', ''svcA'', ''pkg:svcA/readme.md'']"
    by (simp add: processBasePath_def tryBasePath_def filterReadmeFiles_def
      generateEntry_def tryGenerate_def tryCatch_def bindM_def call_def
      callGenerate_def logOut_def returnM_def demoCollaborators_def demoEntry_def
      emptyRun_def readmeOrBasePath_def)
  from processBasePath_readme_failure [OF h, of None "[''svcA'']"] h e r
  show ?thesis by simp
qed

subsection \<open>Facts about single-surface generation\<close>

lemma call_saved: "saved (snd (call f s)) = saved s"
  by (simp add: call_def split: prod.splits)

lemma singleEntries_saved:
  "saved (snd (singleEntries c readme es configs s)) = saved s"
proof (induction es arbitrary: configs s)
  case Nil
  show ?case by (simp add: returnM_def)
next
  case (Cons e es)
  show ?case
  proof (cases "disabledForAutogen e = Some True")
    case True
    with Cons show ?thesis by simp
  next
    case False
    obtain r s1 where g: "callGenerate c readme e s = (r, s1)"
      by (cases "callGenerate c readme e s")
    then have "saved s1 = saved s"
      by (auto simp: callGenerate_def call_def split: prod.splits)
    with g False Cons show ?thesis
      by (cases r) (simp_all add: bindM_def)
  qed
qed

lemma resolveLocalPath_saved:
  "saved (snd (resolveLocalPath c localPathArg s)) = saved s"
  by (auto simp: resolveLocalPath_def bindM_def returnM_def call_def
      split: option.splits prod.splits sum.splits)

lemma singleEntries_skip_disabled:
  "singleEntries c readme es configs s
     = singleEntries c readme (filter (\<lambda>e. disabledForAutogen e \<noteq> Some True) es) configs s"
proof (induction es arbitrary: configs s)
  case Nil
  show ?case by simp
next
  case (Cons e es)
  show ?case
  proof (cases "disabledForAutogen e = Some True")
    case True
    with Cons show ?thesis by simp
  next
    case False
    with Cons show ?thesis by (simp add: bindM_def split: prod.splits sum.splits)
  qed
qed

lemma singleEntries_trace:
  "\<exists>n. generated (snd (singleEntries c readme es configs s))
         = generated s
           @ map (Pair readme) (take n (filter (\<lambda>e. disabledForAutogen e \<noteq> Some True) es))"
proof (induction es arbitrary: configs s)
  case Nil
  show ?case by (simp add: returnM_def)
next
  case (Cons e es)
  show ?case
  proof (cases "disabledForAutogen e = Some True")
    case True
    with Cons show ?thesis by simp
  next
    case False
    obtain r s1 where g: "callGenerate c readme e s = (r, s1)"
      by (cases "callGenerate c readme e s")
    then have t: "generated s1 = generated s @ [(readme, e)]"
      by (auto simp: callGenerate_def call_def split: prod.splits)
    show ?thesis
    proof (cases r)
      case (Inl err)
      with g False t have
        "generated (snd (singleEntries c readme (e # es) configs s))
           = generated s @ map (Pair readme)
               (take 1 (filter (\<lambda>e. disabledForAutogen e \<noteq> Some True) (e # es)))"
        by (simp add: bindM_def)
      then show ?thesis by blast
    next
      case (Inr local)
      from Cons [of "configs @ local" s1] obtain n where
        "generated (snd (singleEntries c readme es (configs @ local) s1))
           = generated s1
             @ map (Pair readme) (take n (filter (\<lambda>e. disabledForAutogen e \<noteq> Some True) es))"
        by blast
      with g False t Inr have
        "generated (snd (singleEntries c readme (e # es) configs s))
           = generated s @ map (Pair readme)
               (take (Suc n) (filter (\<lambda>e. disabledForAutogen e \<noteq> Some True) (e # es)))"
        by (simp add: bindM_def)
      then show ?thesis by blast
    qed
  qed
qed

lemma singleEntries_failure:
  assumes "singleEntries c readme pre configs s = (Inr configs1, s1)"
    and "disabledForAutogen e \<noteq> Some True"
    and "generateSchemas c readme e (world s1) = (Inl err, w)"
  shows "singleEntries c readme (pre @ e # post) configs s
           = (Inl err, s1\<lparr>generated := generated s1 @ [(readme, e)], world := w\<rparr>)"
  using assms(1)
proof (induction pre arbitrary: configs s)
  case Nil
  then have "s1 = s" by (simp add: returnM_def)
  with assms(2,3) show ?case
    by (simp add: bindM_def callGenerate_def call_def)
next
  case (Cons p pre)
  show ?case
  proof (cases "disabledForAutogen p = Some True")
    case True
    with Cons show ?thesis by simp
  next
    case False
    obtain r s0 where g: "callGenerate c readme p s = (r, s0)"
      by (cases "callGenerate c readme p s")
    show ?thesis
    proof (cases r)
      case (Inl err0)
      with g False Cons.prems show ?thesis by (simp add: bindM_def)
    next
      case (Inr local)
      with g False Cons.prems
      have "singleEntries c readme pre (configs @ local) s0 = (Inr configs1, s1)"
        by (simp add: bindM_def)
      from Cons.IH [OF this] g False Inr show ?thesis by (simp add: bindM_def)
    qed
  qed
qed

lemma generateSingle_loop_failure:
  assumes "resolveLocalPath c localPathArg s = (Inr localPath, s0)"
    and "validateAndReturnReadmePath c localPath bp (world s0) = (Inr readme, w1)"
    and "findOrGenerateAutogenEntriesByReadme c bp readme w1 = (Inr es, w2)"
    and "singleEntries c readme es [] (s0\<lparr>world := w2\<rparr>) = (Inl err, s3)"
  shows "generateSingle c bp localPathArg s = (Inl err, s3) \<and> saved s3 = saved s"
proof -
  have "generateSingle c bp localPathArg s = (Inl err, s3)"
    using assms
    by (simp add: generateSingle_def bindM_def tryCatch_def call_def)
  moreover have "saved s3 = saved s"
    using singleEntries_saved [of c readme es "[]" "s0\<lparr>world := w2\<rparr>"]
      resolveLocalPath_saved [of c localPathArg s] assms(1,4)
    by simp
  ultimately show ?thesis by blast
qed


definition singleList :: "entry list" where
  "singleList = [demoEntry ''svcA'' ''First'' None, demoEntry ''svcA'' ''Off'' (Some True),
                 demoEntry ''svcA'' ''Bad'' None, demoEntry ''svcA'' ''Third'' None]"

lemma demo_single_run:
  "resolveLocalPath demoCollaborators None emptyRun = (Inr ''specs'', emptyRun\<lparr>world := 1\<rparr>)"
  "validateAndReturnReadmePath demoCollaborators ''specs'' ''svcA'' (world (emptyRun\<lparr>world := 1\<rparr>))
     = (Inr ''svcA/readme.md'', 1)"
  "findOrGenerateAutogenEntriesByReadme demoCollaborators ''svcA'' ''svcA/readme.md'' 1
     = (Inr singleList, 1)"
  "singleEntries demoCollaborators ''svcA/readme.md'' singleList [] (emptyRun\<lparr>world := 1\<rparr>)
     = (Inl (External ''boom''),
        emptyRun\<lparr>world := 3,
                 generated := [(''svcA/readme.md'', demoEntry ''svcA'' ''First'' None),
                               (''svcA/readme.md'', demoEntry ''svcA'' ''Bad'' None)]\<rparr>)"
  by (simp_all add: resolveLocalPath_def bindM_def call_def callGenerate_def returnM_def
      demoCollaborators_def demoEntry_def emptyRun_def singleList_def)

lemma demo_single_prefix:
  "singleEntries demoCollaborators ''svcA/readme.md''
       [demoEntry ''svcA'' ''First'' None, demoEntry ''svcA'' ''Off'' (Some True)] []
       (emptyRun\<lparr>world := 1\<rparr>)
     = (Inr [''First''],
        emptyRun\<lparr>world := 2,
                 generated := [(''svcA/readme.md'', demoEntry ''svcA'' ''First'' None)]\<rparr>)"
  "disabledForAutogen (demoEntry ''svcA'' ''Bad'' None) \<noteq> Some True"
  "generateSchemas demoCollaborators ''svcA/readme.md'' (demoEntry ''svcA'' ''Bad'' None)
       (world (emptyRun\<lparr>world := 2,
                 generated := [(''svcA/readme.md'', demoEntry ''svcA'' ''First'' None)]\<rparr>))
     = (Inl (External ''boom''), 3)"
  by (simp_all add: bindM_def call_def callGenerate_def returnM_def
      demoCollaborators_def demoEntry_def emptyRun_def)

text \<open>
  Claim C9. In single-surface generation the generation routine is called outside any
  \<^verbatim>\<open>try\<close>: when it throws for a non-disabled entry, reached after the entries before it
  went through, the loop ends there with that error, whatever entries follow (none of them
  is attempted); the invocation ends with the same error and
  \<^verbatim>\<open>saveAutoGeneratedSchemaRefs\<close> is not called. The entries passed to the generation
  routine are non-disabled entries only, in order: the loop does what it does on the list
  without its disabled entries.
\<close>

theorem singleEntries_failure_propagates:
  "(singleEntries c readme pre configs s = (Inr configs1, s1)
      \<and> disabledForAutogen e \<noteq> Some True
      \<and> generateSchemas c readme e (world s1) = (Inl err, w)
    \<longrightarrow> singleEntries c readme (pre @ e # post) configs s
          = (Inl err, s1\<lparr>generated := generated s1 @ [(readme, e)], world := w\<rparr>))
   \<and> (resolveLocalPath c localPathArg st = (Inr localPath, s0)
      \<and> validateAndReturnReadmePath c localPath bp (world s0) = (Inr readme', w1)
      \<and> findOrGenerateAutogenEntriesByReadme c bp readme' w1 = (Inr es, w2)
      \<and> singleEntries c readme' es [] (s0\<lparr>world := w2\<rparr>) = (Inl err', s3)
    \<longrightarrow> generateSingle c bp localPathArg st = (Inl err', s3) \<and> saved s3 = saved st)
   \<and> singleEntries c readme es configs s
       = singleEntries c readme (filter (\<lambda>e. disabledForAutogen e \<noteq> Some True) es) configs s
   \<and> (\<exists>n. generated (snd (singleEntries c readme es configs s))
           = generated s
             @ map (Pair readme) (take n (filter (\<lambda>e. disabledForAutogen e \<noteq> Some True) es)))"
proof -
  have p1: "singleEntries c readme (pre @ e # post) configs s
          = (Inl err, s1\<lparr>generated := generated s1 @ [(readme, e)], world := w\<rparr>)"
    if "singleEntries c readme pre configs s = (Inr configs1, s1)
      \<and> disabledForAutogen e \<noteq> Some True
      \<and> generateSchemas c readme e (world s1) = (Inl err, w)"
    using that singleEntries_failure [of c readme pre configs s configs1 s1 e err w post]
    by blast
  have p2: "generateSingle c bp localPathArg st = (Inl err', s3) \<and> saved s3 = saved st"
    if "resolveLocalPath c localPathArg st = (Inr localPath, s0)
      \<and> validateAndReturnReadmePath c localPath bp (world s0) = (Inr readme', w1)
      \<and> findOrGenerateAutogenEntriesByReadme c bp readme' w1 = (Inr es, w2)
      \<and> singleEntries c readme' es [] (s0\<lparr>world := w2\<rparr>) = (Inl err', s3)"
    using that generateSingle_loop_failure [of c localPathArg st localPath s0 bp readme' w1 es w2 err' s3]
    by blast
  from p1 p2 singleEntries_skip_disabled [of c readme es configs s]
    singleEntries_trace [of c readme es configs s]
  show ?thesis by blast
qed

theorem singleEntries_failure_propagates_witness:
  "singleEntries demoCollaborators ''svcA/readme.md''
       [demoEntry ''svcA'' ''First'' None, demoEntry ''svcA'' ''Off'' (Some True)] []
       (emptyRun\<lparr>world := 1\<rparr>)
     = (Inr [''First''],
        emptyRun\<lparr>world := 2,
                 generated := [(''svcA/readme.md'', demoEntry ''svcA'' ''First'' None)]\<rparr>)
   \<and> disabledForAutogen (demoEntry ''svcA'' ''Bad'' None) \<noteq> Some True
   \<and> generateSchemas demoCollaborators ''svcA/readme.md'' (demoEntry ''svcA'' ''Bad'' None) 2
       = (Inl (External ''boom''), 3)
   \<and> fst (singleEntries demoCollaborators ''svcA/readme.md''
       ([demoEntry ''svcA'' ''First'' None, demoEntry ''svcA'' ''Off'' (Some True)]
          @ demoEntry ''svcA'' ''Bad'' None # [demoEntry ''svcA'' ''Third'' None]) []
       (emptyRun\<lparr>world := 1\<rparr>)) = Inl (External ''boom'')
   \<and> resolveLocalPath demoCollaborators None emptyRun = (Inr ''specs'', emptyRun\<lparr>world := 1\<rparr>)
   \<and> validateAndReturnReadmePath demoCollaborators ''specs'' ''svcA'' 1
       = (Inr ''svcA/readme.md'', 1)
   \<and> findOrGenerateAutogenEntriesByReadme demoCollaborators ''svcA'' ''svcA/readme.md'' 1
       = (Inr singleList, 1)
   \<and> fst (generateSingle demoCollaborators ''svcA'' None emptyRun) = Inl (External ''boom'')
   \<and> saved (snd (generateSingle demoCollaborators ''svcA'' None emptyRun)) = []
   \<and> map snd (generated (snd (generateSingle demoCollaborators ''svcA'' None emptyRun)))
       = [demoEntry ''svcA'' ''First'' None, demoEntry ''svcA'' ''Bad'' None]"
proof -
  have w: "world (emptyRun\<lparr>world := 1\<rparr>) = 1"
    "world (emptyRun\<lparr>world := 2,
                 generated := [(''svcA/readme.md'', demoEntry ''svcA'' ''First'' None)]\<rparr>) = 2"
    "emptyRun\<lparr>world := 1, world := 1\<rparr> = emptyRun\<lparr>world := 1\<rparr>"
    "saved emptyRun = []"
    by (simp_all add: emptyRun_def)
  note t = singleEntries_failure_propagates
      [where c = demoCollaborators and readme = "''svcA/readme.md''"
         and pre = "[demoEntry ''svcA'' ''First'' None, demoEntry ''svcA'' ''Off'' (Some True)]"
         and configs = "[]" and s = "emptyRun\<lparr>world := 1\<rparr>" and ?configs1.0 = "[''First'']"
         and ?s1.0 = "emptyRun\<lparr>world := 2,
                 generated := [(''svcA/readme.md'', demoEntry ''svcA'' ''First'' None)]\<rparr>"
         and e = "demoEntry ''svcA'' ''Bad'' None" and err = "External ''boom''" and w = 3
         and post = "[demoEntry ''svcA'' ''Third'' None]"
         and localPathArg = None and st = emptyRun and localPath = "''specs''"
         and ?s0.0 = "emptyRun\<lparr>world := 1\<rparr>" and bp = "''svcA''"
         and readme' = "''svcA/readme.md''" and ?w1.0 = 1
         and es = singleList and ?w2.0 = 1 and err' = "External ''boom''"
         and ?s3.0 = "emptyRun\<lparr>world := 3,
                 generated := [(''svcA/readme.md'', demoEntry ''svcA'' ''First'' None),
                               (''svcA/readme.md'', demoEntry ''svcA'' ''Bad'' None)]\<rparr>"]
  from t demo_single_run demo_single_prefix w
  have a: "singleEntries demoCollaborators ''svcA/readme.md''
       ([demoEntry ''svcA'' ''First'' None, demoEntry ''svcA'' ''Off'' (Some True)]
          @ demoEntry ''svcA'' ''Bad'' None # [demoEntry ''svcA'' ''Third'' None]) []
       (emptyRun\<lparr>world := 1\<rparr>)
     = (Inl (External ''boom''),
        emptyRun\<lparr>world := 2,
                 generated := [(''svcA/readme.md'', demoEntry ''svcA'' ''First'' None)]\<rparr>
          \<lparr>generated := generated (emptyRun\<lparr>world := 2,
                 generated := [(''svcA/readme.md'', demoEntry ''svcA'' ''First'' None)]\<rparr>)
                @ [(''svcA/readme.md'', demoEntry ''svcA'' ''Bad'' None)], world := 3\<rparr>)"
    by simp
  from t demo_single_run demo_single_prefix w
  have b: "generateSingle demoCollaborators ''svcA'' None emptyRun
     = (Inl (External ''boom''),
        emptyRun\<lparr>world := 3,
                 generated := [(''svcA/readme.md'', demoEntry ''svcA'' ''First'' None),
                               (''svcA/readme.md'', demoEntry ''svcA'' ''Bad'' None)]\<rparr>)"
    by simp
  from a b demo_single_run demo_single_prefix w show ?thesis
    by (simp add: emptyRun_def)
qed

end

